theory Spec2Isabelle
  imports Main
begin

section \<open>JavaScript values\<close>

text \<open>
  The scripts are JavaScript. A string is modelled as a \<^typ>\<open>string\<close> holding the
  UTF-8 bytes of the source text; every character the code compares with (the double
  quote, the comma, the hyphen, the equals sign) is ASCII, so a comparison of bytes
  decides what the comparison of UTF-16 code units decides; the white space that
  \<^verbatim>\<open>trim\<close> removes is matched as byte sequences.
\<close>

definition dquote :: char where
  "dquote = CHR 0x22"

definition comma :: char where
  "comma = CHR 0x2C"

text \<open>
  A parsed JSON document. Numbers are integers: the only number the scripts read is a
  page count. A value read from a document is an optional document, where
  \<^const>\<open>None\<close> is JavaScript's \<^verbatim>\<open>undefined\<close>.
\<close>

datatype json =
    JNull
  | JBool bool
  | JNum int
  | JStr string
  | JArr "json list"
  | JObj "(string \<times> json) list"

datatype exn = TypeError | NetworkError | SyntaxError

text \<open>What \<^verbatim>\<open>if (v)\<close>, \<^verbatim>\<open>!v\<close> and \<^verbatim>\<open>v || w\<close> test.\<close>

fun truthy :: "json option \<Rightarrow> bool" where
  "truthy None = False"
| "truthy (Some JNull) = False"
| "truthy (Some (JBool b)) = b"
| "truthy (Some (JNum n)) = (n \<noteq> 0)"
| "truthy (Some (JStr s)) = (s \<noteq> [])"
| "truthy (Some (JArr xs)) = True"
| "truthy (Some (JObj kvs)) = True"

text \<open>
  The property read \<^verbatim>\<open>v.k\<close> or \<^verbatim>\<open>v[k]\<close>, for the keys the scripts read from a
  response (\<^verbatim>\<open>ISBN:...\<close>, \<^verbatim>\<open>title\<close>, \<^verbatim>\<open>authors\<close>, \<^verbatim>\<open>number_of_pages\<close>,
  \<^verbatim>\<open>name\<close>): none of them is a property that strings, numbers, arrays or plain
  objects inherit. Reading a property of \<^verbatim>\<open>undefined\<close> or \<^verbatim>\<open>null\<close> throws.
\<close>

fun get_prop :: "json option \<Rightarrow> string \<Rightarrow> exn + json option" where
  "get_prop None k = Inl TypeError"
| "get_prop (Some JNull) k = Inl TypeError"
| "get_prop (Some (JObj kvs)) k = Inr (map_of kvs k)"
| "get_prop (Some (JBool b)) k = Inr None"
| "get_prop (Some (JNum n)) k = Inr None"
| "get_prop (Some (JStr s)) k = Inr None"
| "get_prop (Some (JArr xs)) k = Inr None"

text \<open>Truthiness of an optional string: \<^verbatim>\<open>undefined\<close>, \<^verbatim>\<open>null\<close> and \<^verbatim>\<open>''\<close> are falsy.\<close>

definition no_value :: "string option \<Rightarrow> bool" where
  "no_value s = (s = None \<or> s = Some [])"

text \<open>Truthiness of an optional number: \<^verbatim>\<open>undefined\<close>, \<^verbatim>\<open>null\<close> and \<^verbatim>\<open>0\<close> are falsy.\<close>

definition no_number :: "int option \<Rightarrow> bool" where
  "no_number n = (n = None \<or> n = Some 0)"

text \<open>
  The white space and line terminators of JavaScript, each as its UTF-8 bytes: tab, line
  feed, vertical tab, form feed, carriage return, space, U+00A0, U+1680, U+2000 to
  U+200A, U+2028, U+2029, U+202F, U+205F, U+3000 and U+FEFF.
\<close>

definition white_space :: "string list" where
  "white_space =
     [[CHR 0x09], [CHR 0x0A], [CHR 0x0B], [CHR 0x0C], [CHR 0x0D], [CHR 0x20],
      [CHR 0xC2, CHR 0xA0], [CHR 0xE1, CHR 0x9A, CHR 0x80],
      [CHR 0xE2, CHR 0x80, CHR 0x80], [CHR 0xE2, CHR 0x80, CHR 0x81],
      [CHR 0xE2, CHR 0x80, CHR 0x82], [CHR 0xE2, CHR 0x80, CHR 0x83],
      [CHR 0xE2, CHR 0x80, CHR 0x84], [CHR 0xE2, CHR 0x80, CHR 0x85],
      [CHR 0xE2, CHR 0x80, CHR 0x86], [CHR 0xE2, CHR 0x80, CHR 0x87],
      [CHR 0xE2, CHR 0x80, CHR 0x88], [CHR 0xE2, CHR 0x80, CHR 0x89],
      [CHR 0xE2, CHR 0x80, CHR 0x8A], [CHR 0xE2, CHR 0x80, CHR 0xA8],
      [CHR 0xE2, CHR 0x80, CHR 0xA9], [CHR 0xE2, CHR 0x80, CHR 0xAF],
      [CHR 0xE2, CHR 0x81, CHR 0x9F], [CHR 0xE3, CHR 0x80, CHR 0x80],
      [CHR 0xEF, CHR 0xBB, CHR 0xBF]]"

text \<open>The number of bytes of the white-space character a string starts with, or 0.\<close>

definition space_prefix :: "string list \<Rightarrow> string \<Rightarrow> nat" where
  "space_prefix ws s =
     (case find (\<lambda>w. w \<noteq> [] \<and> take (length w) s = w) ws of
        None \<Rightarrow> 0
      | Some w \<Rightarrow> length w)"

function strip_spaces :: "string list \<Rightarrow> string \<Rightarrow> string" where
  "strip_spaces ws s =
     (if space_prefix ws s = 0 then s else strip_spaces ws (drop (space_prefix ws s) s))"
  by pat_completeness auto
termination
proof (relation "measure (\<lambda>(ws, s). length s)")
  show "wf (measure (\<lambda>(ws, s). length s))"
    by simp
next
  fix ws :: "string list" and s :: string
  assume a: "space_prefix ws s \<noteq> 0"
  then have "s \<noteq> []"
    by (auto simp add: space_prefix_def find_Some_iff split: option.splits)
  then show "((ws, drop (space_prefix ws s) s), (ws, s)) \<in> measure (\<lambda>(ws, s). length s)"
    using a by (cases s) simp_all
qed

text \<open>
  \<^verbatim>\<open>String.prototype.trim\<close>: the white space at the start goes, then the white space
  at the end. In well-formed UTF-8 a white-space character at the end of a string is
  exactly a suffix of its bytes, since each of them begins with a lead byte.
\<close>

definition trim :: "string \<Rightarrow> string" where
  "trim s = rev (strip_spaces (map rev white_space) (rev (strip_spaces white_space s)))"

text \<open>\<^verbatim>\<open>s.replace(/-/g, '')\<close>.\<close>

definition strip_hyphens :: "string \<Rightarrow> string" where
  "strip_hyphens s = filter (\<lambda>c. c \<noteq> CHR ''-'') s"

text \<open>\<^verbatim>\<open>s.replace(/[="]/g, '')\<close>.\<close>

definition strip_equals_quotes :: "string \<Rightarrow> string" where
  "strip_equals_quotes s = filter (\<lambda>c. c \<noteq> CHR ''='' \<and> c \<noteq> dquote) s"

text \<open>\<^verbatim>\<open>s.replace(/^"|"$/g, '')\<close>: a quote at the start and a quote at the end go.\<close>

definition strip_outer_quotes :: "string \<Rightarrow> string" where
  "strip_outer_quotes s =
     (let s1 = (case s of [] \<Rightarrow> [] | c # cs \<Rightarrow> if c = dquote then cs else s)
      in if s1 \<noteq> [] \<and> last s1 = dquote then butlast s1 else s1)"

text \<open>\<^verbatim>\<open>s.split(d)\<close> for a one-character separator: never the empty array.\<close>

fun split_on :: "char \<Rightarrow> string \<Rightarrow> string list" where
  "split_on d [] = [[]]"
| "split_on d (c # cs) =
     (if c = d then [] # split_on d cs
      else (case split_on d cs of [] \<Rightarrow> [[c]] | f # fs \<Rightarrow> (c # f) # fs))"

text \<open>\<^verbatim>\<open>xs.indexOf(x)\<close>, with \<^const>\<open>None\<close> for \<^verbatim>\<open>-1\<close>, and \<^verbatim>\<open>xs[i]\<close>, with
  \<^const>\<open>None\<close> for the \<^verbatim>\<open>undefined\<close> read beyond the end.\<close>

fun indexOf :: "'a list \<Rightarrow> 'a \<Rightarrow> nat option" where
  "indexOf [] x = None"
| "indexOf (y # ys) x = (if y = x then Some 0 else map_option Suc (indexOf ys x))"

definition at_index :: "'a list \<Rightarrow> nat \<Rightarrow> 'a option" where
  "at_index xs i = (if i < length xs then Some (xs ! i) else None)"

section \<open>The two remote services\<close>

text \<open>
  A page of the Notion database, holding what the scripts read from it:
  \<^verbatim>\<open>page.id\<close>, \<^verbatim>\<open>page.properties.Title?.title[0]?.plain_text\<close>,
  \<^verbatim>\<open>page.properties.Status?.status?.name\<close>, \<^verbatim>\<open>page.icon\<close>,
  \<^verbatim>\<open>page.properties.ISBN?.rich_text?.[0]?.plain_text\<close> and
  \<^verbatim>\<open>page.properties['Total Pages']?.number\<close>. \<^const>\<open>None\<close> is \<^verbatim>\<open>undefined\<close> or
  \<^verbatim>\<open>null\<close>. An icon is an emoji or of another type (a file, an external image).
  The object \<^verbatim>\<open>page.properties\<close> and the array under a title property are taken to
  be there, as the service sends them: the reads the code makes without \<^verbatim>\<open>?.\<close> do
  not throw.
\<close>

datatype icon = EmojiIcon string | OtherIcon string

record page =
  page_id :: string
  title_text :: "string option"
  status_name :: "string option"
  page_icon :: "icon option"
  isbn_text :: "string option"
  total_pages :: "int option"

text \<open>The answer of \<^verbatim>\<open>notion.databases.query\<close>.\<close>

record response =
  results :: "page list"
  has_more :: bool
  next_cursor :: "string option"

text \<open>
  The database: what a query with a start cursor answers (\<^const>\<open>None\<close> when the
  request throws; the first query passes \<^verbatim>\<open>undefined\<close>, the cursor \<^const>\<open>None\<close>),
  and the pages whose update request the service refuses.
\<close>

record notion =
  query :: "string option \<Rightarrow> response option"
  rejects :: "string \<Rightarrow> bool"

text \<open>
  The value the icon script sends as the new emoji. \<^verbatim>\<open>EMOJIS\<close> is a plain object, so
  \<^verbatim>\<open>EMOJIS[status]\<close> also finds what every object inherits from
  \<^verbatim>\<open>Object.prototype\<close>: for such a name the value is a function or an object, not
  a string.
\<close>

datatype emoji_val = Glyph string | Inherited string

text \<open>The record \<^verbatim>\<open>fetchBookInfo\<close> builds.\<close>

record book_info =
  title :: "json option"
  authors :: "json option list"
  numberOfPages :: json
  isbn :: string

text \<open>
  What the scripts do to the outside, in order: the requests, the pauses, the console
  lines and the file written. A console line is its fixed text and the title or
  identifier interpolated into it (numbers and glyphs interpolated are left out).
\<close>

datatype event =
    Query "string option"
  | UpdateIcon string emoji_val
  | UpdatePages string json
  | CreatePage book_info
  | Lookup string
  | Sleep nat
  | Log string string
  | LogError string string
  | WriteFile "string list"

record io =
  trace :: "event list"

definition emit :: "event \<Rightarrow> 'a io_scheme \<Rightarrow> 'a io_scheme" where
  "emit e st = st\<lparr>trace := trace st @ [e]\<rparr>"

text \<open>What a successful update changes: the field of every entry with that identifier.\<close>

definition map_pages :: "(page \<Rightarrow> page) \<Rightarrow> notion \<Rightarrow> notion" where
  "map_pages f db =
     db\<lparr>query := (\<lambda>c. map_option (\<lambda>r. r\<lparr>results := map f (results r)\<rparr>) (query db c))\<rparr>"

definition set_icon :: "string \<Rightarrow> string \<Rightarrow> notion \<Rightarrow> notion" where
  "set_icon pid g db =
     map_pages (\<lambda>p. if page_id p = pid then p\<lparr>page_icon := Some (EmojiIcon g)\<rparr> else p) db"

definition set_pages :: "string \<Rightarrow> int \<Rightarrow> notion \<Rightarrow> notion" where
  "set_pages pid n db =
     map_pages (\<lambda>p. if page_id p = pid then p\<lparr>total_pages := Some n\<rparr> else p) db"

text \<open>
  \<^verbatim>\<open>notion.pages.update\<close>: \<^const>\<open>None\<close> when the request throws. The service
  refuses a page it rejects and a body of the wrong type: an emoji that is not a
  string, a page count that is not a number.
\<close>

definition update_icon :: "notion \<Rightarrow> string \<Rightarrow> emoji_val \<Rightarrow> notion option" where
  "update_icon db pid v =
     (case v of
        Glyph g \<Rightarrow> if rejects db pid then None else Some (set_icon pid g db)
      | Inherited n \<Rightarrow> None)"

definition update_pages :: "notion \<Rightarrow> string \<Rightarrow> json \<Rightarrow> notion option" where
  "update_pages db pid v =
     (case v of
        JNum n \<Rightarrow> if rejects db pid then None else Some (set_pages pid n db)
      | _ \<Rightarrow> None)"

text \<open>
  The answer of the OpenLibrary request for an identifier: the connection fails, the
  body is not JSON, or the body parses to a document.
\<close>

datatype http_result = NetworkFailure | BadBody | Body json

type_synonym openlibrary = "string \<Rightarrow> http_result"

definition unknown_title :: "string option \<Rightarrow> string" where
  "unknown_title t = (if no_value t then ''Unknown Title'' else the t)"

section \<open>update-icons.js\<close>

definition open_book :: string where
  "open_book = [CHR 0xF0, CHR 0x9F, CHR 0x93, CHR 0x96]"

definition blue_book :: string where
  "blue_book = [CHR 0xF0, CHR 0x9F, CHR 0x93, CHR 0x98]"

definition green_book :: string where
  "green_book = [CHR 0xF0, CHR 0x9F, CHR 0x93, CHR 0x97]"

definition red_book :: string where
  "red_book = [CHR 0xF0, CHR 0x9F, CHR 0x93, CHR 0x95]"

definition books :: string where
  "books = [CHR 0xF0, CHR 0x9F, CHR 0x93, CHR 0x9A]"

definition EMOJIS :: "(string \<times> string) list" where
  "EMOJIS =
     [(''Currently Reading'', open_book),
      (''To Read'', blue_book),
      (''Completed'', green_book),
      (''DNF'', red_book)]"

text \<open>The names every plain object inherits from \<^verbatim>\<open>Object.prototype\<close>.\<close>

definition object_prototype_names :: "string list" where
  "object_prototype_names =
     [''constructor'', ''__defineGetter__'', ''__defineSetter__'', ''hasOwnProperty'',
      ''__lookupGetter__'', ''__lookupSetter__'', ''isPrototypeOf'',
      ''propertyIsEnumerable'', ''toString'', ''valueOf'', ''__proto__'',
      ''toLocaleString'']"

text \<open>\<^verbatim>\<open>EMOJIS[status]\<close>: an own property first, then an inherited one.\<close>

definition EMOJIS_get :: "string \<Rightarrow> emoji_val option" where
  "EMOJIS_get status =
     (case map_of EMOJIS status of
        Some g \<Rightarrow> Some (Glyph g)
      | None \<Rightarrow> if status \<in> set object_prototype_names then Some (Inherited status) else None)"

text \<open>
  \<^verbatim>\<open>EMOJIS[status] || fallback\<close>: the four glyphs are non-empty strings and the
  inherited members are functions or objects, all truthy.
\<close>

definition expectedEmoji :: "string \<Rightarrow> emoji_val" where
  "expectedEmoji status =
     (case EMOJIS_get status of
        Some (Glyph g) \<Rightarrow> if g = [] then Glyph books else Glyph g
      | Some (Inherited n) \<Rightarrow> Inherited n
      | None \<Rightarrow> Glyph books)"

text \<open>\<^verbatim>\<open>page.icon?.type === 'emoji' ? page.icon.emoji : null\<close>.\<close>

definition currentEmoji :: "page \<Rightarrow> string option" where
  "currentEmoji p =
     (case page_icon p of Some (EmojiIcon e) \<Rightarrow> Some e | Some (OtherIcon t) \<Rightarrow> None | None \<Rightarrow> None)"

text \<open>\<^verbatim>\<open>currentEmoji === expectedEmoji\<close>: a string or \<^verbatim>\<open>null\<close> against the value expected.\<close>

definition same_emoji :: "string option \<Rightarrow> emoji_val \<Rightarrow> bool" where
  "same_emoji cur v = (case v of Glyph g \<Rightarrow> cur = Some g | Inherited n \<Rightarrow> False)"

text \<open>
  What the body of the \<^verbatim>\<open>for\<close> loop decides for a page before it sends anything:
  no status, skip, or an update of the icon with a value.
\<close>

datatype decision = NoStatus | Skip | Update emoji_val

definition decideIcon :: "page \<Rightarrow> decision" where
  "decideIcon p =
     (if no_value (status_name p) then NoStatus
      else let expected = expectedEmoji (the (status_name p))
           in if same_emoji (currentEmoji p) expected then Skip else Update expected)"

record run_state = io +
  db :: notion
  totalUpdated :: nat
  totalSkipped :: nat

text \<open>The body of the \<^verbatim>\<open>for\<close> loop over the pages of a response.\<close>

definition iconRecord :: "page \<Rightarrow> 'a run_state_scheme \<Rightarrow> 'a run_state_scheme" where
  "iconRecord p st =
     (case decideIcon p of
        NoStatus \<Rightarrow> emit (Log ''Skipping book - no status found'' (unknown_title (title_text p))) st
      | Skip \<Rightarrow>
          (emit (Log ''Skipping - emoji already matches status'' (unknown_title (title_text p))) st)
            \<lparr>totalSkipped := Suc (totalSkipped st)\<rparr>
      | Update v \<Rightarrow>
          (let st1 = emit (UpdateIcon (page_id p) v) st;
               st2 = (case update_icon (db st) (page_id p) v of
                        Some db' \<Rightarrow>
                          (emit (Log ''Updated icon'' (unknown_title (title_text p))) st1)
                            \<lparr>db := db', totalUpdated := Suc (totalUpdated st)\<rparr>
                      | None \<Rightarrow>
                          emit (LogError ''Error updating icon'' (unknown_title (title_text p))) st1)
           in emit (Sleep 250) st2))"

fun iconBatch :: "page list \<Rightarrow> 'a run_state_scheme \<Rightarrow> 'a run_state_scheme" where
  "iconBatch [] st = st"
| "iconBatch (p # ps) st = iconBatch ps (iconRecord p st)"

text \<open>
  The \<^verbatim>\<open>while (hasMore)\<close> loop, with fuel: the number of iterations it may still
  run. \<^const>\<open>None\<close> says the loop has not ended within the fuel. A query that throws
  leaves the loop for the \<^verbatim>\<open>catch\<close> of the function.
\<close>

fun iconLoop :: "nat \<Rightarrow> string option \<Rightarrow> 'a run_state_scheme \<Rightarrow> 'a run_state_scheme option" where
  "iconLoop 0 startCursor st = None"
| "iconLoop (Suc fuel) startCursor st =
     (let st1 = emit (Query startCursor) st
      in case query (db st) startCursor of
           None \<Rightarrow> Some (emit (LogError ''Error updating book icons'' []) st1)
         | Some r \<Rightarrow>
             (let st2 = iconBatch (results r) (emit (Log ''Processing batch of books'' []) st1);
                  st3 = emit (Log (if has_more r then ''Batch complete. Moving to next page''
                                   else ''Batch complete. No more pages'') []) st2
              in if has_more r then iconLoop fuel (next_cursor r) st3
                 else Some (emit (Log ''Icon update complete'' []) st3)))"

definition updateBookIcons :: "nat \<Rightarrow> notion \<Rightarrow> run_state option" where
  "updateBookIcons fuel d =
     iconLoop fuel None \<lparr>trace = [], db = d, totalUpdated = 0, totalSkipped = 0\<rparr>"

section \<open>update-total-pages.js\<close>

text \<open>
  \<^verbatim>\<open>fetchBookDataFromOpenLibrary\<close>: the promise rejects when the request fails or
  the body does not parse (also when the parsed body is \<^verbatim>\<open>null\<close>, whose property
  read throws inside the \<^verbatim>\<open>try\<close>), and resolves to the entry of the identifier, or
  to \<^verbatim>\<open>null\<close> when that entry is falsy.
\<close>

definition fetchBookDataFromOpenLibrary :: "openlibrary \<Rightarrow> string \<Rightarrow> exn + json" where
  "fetchBookDataFromOpenLibrary ol i =
     (case ol i of
        NetworkFailure \<Rightarrow> Inl NetworkError
      | BadBody \<Rightarrow> Inl SyntaxError
      | Body bookData \<Rightarrow>
          (case get_prop (Some bookData) (''ISBN:'' @ i) of
             Inl e \<Rightarrow> Inl e
           | Inr v \<Rightarrow> Inr (if truthy v then the v else JNull)))"

record pages_state = run_state +
  totalMissingISBN :: nat
  totalFailedFetch :: nat
  totalForceUpdated :: nat

definition failedFetch :: "pages_state \<Rightarrow> pages_state" where
  "failedFetch st = st\<lparr>totalFailedFetch := Suc (totalFailedFetch st)\<rparr>"

text \<open>
  The body of the \<^verbatim>\<open>for\<close> loop. The two \<^verbatim>\<open>continue\<close> statements inside the
  \<^verbatim>\<open>try\<close> go to the next page of the batch at once, past the pause that follows the
  \<^verbatim>\<open>try\<close>; the \<^verbatim>\<open>catch\<close> and the successful update fall through to the pause.
\<close>

definition pagesRecord :: "openlibrary \<Rightarrow> bool \<Rightarrow> page \<Rightarrow> pages_state \<Rightarrow> pages_state" where
  "pagesRecord ol force p st =
     (let t = unknown_title (title_text p);
          currentTotalPages = total_pages p
      in if no_value (isbn_text p) then
           (emit (Log ''Skipping - no ISBN found'' t) st)
             \<lparr>totalMissingISBN := Suc (totalMissingISBN st)\<rparr>
         else if \<not> no_number currentTotalPages \<and> \<not> force then
           (emit (Log ''Skipping - already has pages'' t) st)
             \<lparr>totalSkipped := Suc (totalSkipped st)\<rparr>
         else
           (let i = the (isbn_text p);
                st1 = (if \<not> no_number currentTotalPages \<and> force
                       then emit (Log ''Force updating'' t) st else st);
                st2 = emit (Lookup i) (emit (Log ''Fetching data'' t) st1)
            in case fetchBookDataFromOpenLibrary ol i of
                 Inl e \<Rightarrow> emit (Sleep 500) (failedFetch (emit (LogError ''Error processing'' t) st2))
               | Inr bookData \<Rightarrow>
                   if \<not> truthy (Some bookData) then
                     failedFetch (emit (Log ''No OpenLibrary data found'' t) st2)
                   else
                     (case get_prop (Some bookData) ''number_of_pages'' of
                        Inl e \<Rightarrow>
                          emit (Sleep 500) (failedFetch (emit (LogError ''Error processing'' t) st2))
                      | Inr nPages \<Rightarrow>
                          if \<not> truthy nPages then
                            failedFetch (emit (Log ''No page count information available'' t) st2)
                          else
                            (let st3 = emit (UpdatePages (page_id p) (the nPages)) st2
                             in case update_pages (db st) (page_id p) (the nPages) of
                                  None \<Rightarrow>
                                    emit (Sleep 500)
                                      (failedFetch (emit (LogError ''Error processing'' t) st3))
                                | Some db' \<Rightarrow>
                                    emit (Sleep 500)
                                      (if \<not> no_number currentTotalPages \<and> force then
                                         (emit (Log ''Force updated'' t) st3)
                                           \<lparr>db := db',
                                            totalForceUpdated := Suc (totalForceUpdated st)\<rparr>
                                       else
                                         (emit (Log ''Updated'' t) st3)
                                           \<lparr>db := db',
                                            totalUpdated := Suc (totalUpdated st)\<rparr>)))))"

fun pagesBatch :: "openlibrary \<Rightarrow> bool \<Rightarrow> page list \<Rightarrow> pages_state \<Rightarrow> pages_state" where
  "pagesBatch ol force [] st = st"
| "pagesBatch ol force (p # ps) st = pagesBatch ol force ps (pagesRecord ol force p st)"

text \<open>The \<^verbatim>\<open>while (hasMore)\<close> loop, with fuel as in \<^const>\<open>iconLoop\<close>.\<close>

fun pagesLoop ::
  "nat \<Rightarrow> openlibrary \<Rightarrow> bool \<Rightarrow> string option \<Rightarrow> pages_state \<Rightarrow> pages_state option" where
  "pagesLoop 0 ol force startCursor st = None"
| "pagesLoop (Suc fuel) ol force startCursor st =
     (let st1 = emit (Query startCursor) st
      in case query (db st) startCursor of
           None \<Rightarrow> Some (emit (LogError ''Error updating book total pages'' []) st1)
         | Some r \<Rightarrow>
             (let st2 = pagesBatch ol force (results r)
                          (emit (Log ''Processing batch of books'' []) st1);
                  st3 = emit (Log (if has_more r then ''Batch complete. Moving to next page''
                                   else ''Batch complete. No more pages'') []) st2
              in if has_more r then pagesLoop fuel ol force (next_cursor r) st3
                 else Some (emit (Log ''Summary'' []) st3)))"

definition pages_start :: "bool \<Rightarrow> notion \<Rightarrow> pages_state" where
  "pages_start force d =
     (let st = \<lparr>trace = [Log ''Starting to update book total pages'' []], db = d,
                 totalUpdated = 0, totalSkipped = 0, totalMissingISBN = 0,
                 totalFailedFetch = 0, totalForceUpdated = 0\<rparr>
      in if force then emit (Log ''FORCE MODE ENABLED'' []) st else st)"

definition updateBookTotalPages ::
  "nat \<Rightarrow> openlibrary \<Rightarrow> bool \<Rightarrow> notion \<Rightarrow> pages_state option" where
  "updateBookTotalPages fuel ol force d = pagesLoop fuel ol force None (pages_start force d)"

section \<open>import.js\<close>

record import_state = io +
  failedIsbns :: "string list"

text \<open>\<^verbatim>\<open>saveFailedIsbns\<close>; writing the file is taken to succeed.\<close>

definition saveFailedIsbns :: "import_state \<Rightarrow> import_state" where
  "saveFailedIsbns st =
     (if length (failedIsbns st) > 0
      then emit (Log ''failed ISBNs saved'' []) (emit (WriteFile (failedIsbns st)) st)
      else st)"

text \<open>\<^verbatim>\<open>bookData.authors?.map(author => author.name) || []\<close>.\<close>

fun author_names :: "json list \<Rightarrow> exn + json option list" where
  "author_names [] = Inr []"
| "author_names (a # as) =
     (case get_prop (Some a) ''name'' of
        Inl e \<Rightarrow> Inl e
      | Inr n \<Rightarrow> (case author_names as of Inl e \<Rightarrow> Inl e | Inr ns \<Rightarrow> Inr (n # ns)))"

definition authors_of :: "json option \<Rightarrow> exn + json option list" where
  "authors_of a =
     (case a of
        None \<Rightarrow> Inr []
      | Some JNull \<Rightarrow> Inr []
      | Some (JArr as) \<Rightarrow> author_names as
      | Some _ \<Rightarrow> Inl TypeError)"

text \<open>The \<^verbatim>\<open>try\<close> block of \<^verbatim>\<open>fetchBookInfo\<close>: \<^const>\<open>Inl\<close> is what it throws.\<close>

definition fetchBookInfo_try :: "openlibrary \<Rightarrow> string \<Rightarrow> exn + book_info" where
  "fetchBookInfo_try ol i =
     (case ol i of
        NetworkFailure \<Rightarrow> Inl NetworkError
      | BadBody \<Rightarrow> Inl SyntaxError
      | Body data \<Rightarrow>
          (case get_prop (Some data) (''ISBN:'' @ i) of
             Inl e \<Rightarrow> Inl e
           | Inr bookData \<Rightarrow>
               (case get_prop bookData ''title'' of
                  Inl e \<Rightarrow> Inl e
                | Inr t \<Rightarrow>
                    (case get_prop bookData ''authors'' of
                       Inl e \<Rightarrow> Inl e
                     | Inr a \<Rightarrow>
                         (case authors_of a of
                            Inl e \<Rightarrow> Inl e
                          | Inr names \<Rightarrow>
                              (case get_prop bookData ''number_of_pages'' of
                                 Inl e \<Rightarrow> Inl e
                               | Inr n \<Rightarrow>
                                   Inr \<lparr>title = t, authors = names,
                                        numberOfPages = (if truthy n then the n else JNull),
                                        isbn = i\<rparr>))))))"

text \<open>\<^verbatim>\<open>fetchBookInfo\<close>: \<^const>\<open>None\<close> is the \<^verbatim>\<open>null\<close> the \<^verbatim>\<open>catch\<close> returns.\<close>

definition fetchBookInfo ::
  "openlibrary \<Rightarrow> string \<Rightarrow> import_state \<Rightarrow> book_info option \<times> import_state" where
  "fetchBookInfo ol i st =
     (let st1 = emit (Lookup i) st
      in case fetchBookInfo_try ol i of
           Inr b \<Rightarrow> (Some b, st1)
         | Inl e \<Rightarrow>
             (None, (emit (LogError ''Error fetching data for ISBN'' i) st1)
                      \<lparr>failedIsbns := failedIsbns st @ [i]\<rparr>))"

text \<open>
  \<^verbatim>\<open>addBookToNotion\<close>: one create request; an exception is caught and logged. The
  first argument says which records the service accepts; the console line is recorded
  with the identifier of the record.
\<close>

definition addBookToNotion :: "(book_info \<Rightarrow> bool) \<Rightarrow> book_info \<Rightarrow> import_state \<Rightarrow> import_state" where
  "addBookToNotion accepts b st =
     (let st1 = emit (CreatePage b) st
      in if accepts b then emit (Log ''Added to Notion database'' (isbn b)) st1
         else emit (LogError ''Error adding to Notion'' (isbn b)) st1)"

section \<open>import.js: the CSV line parser\<close>

text \<open>
  \<^verbatim>\<open>parseCSVLine\<close> is a \<^verbatim>\<open>for\<close> loop over the characters of the line with
  three variables: the fields found so far, the field being read and the quote flag.
  After the loop the field being read is pushed.
\<close>

fun parseCSV_loop :: "string \<Rightarrow> string list \<Rightarrow> string \<Rightarrow> bool \<Rightarrow> string list" where
  "parseCSV_loop [] result current inQuotes = result @ [current]"
| "parseCSV_loop (c # cs) result current inQuotes =
     (if c = dquote then parseCSV_loop cs result current (\<not> inQuotes)
      else if c = comma \<and> \<not> inQuotes then parseCSV_loop cs (result @ [current]) [] inQuotes
      else parseCSV_loop cs result (current @ [c]) inQuotes)"

definition parseCSVLine :: "string \<Rightarrow> string list" where
  "parseCSVLine line = parseCSV_loop line [] [] False"

text \<open>
  The parser in the words of the specification: scan left to right, toggle the flag on
  every quote character, split on a comma only while outside quotes, and always emit the
  trailing field. This second definition follows the specification, not the source; it
  is compared with \<^const>\<open>parseCSVLine\<close> below.
\<close>

fun spec_fields :: "bool \<Rightarrow> string \<Rightarrow> string list" where
  "spec_fields inQuotes [] = [[]]"
| "spec_fields inQuotes (c # cs) =
     (if c = dquote then spec_fields (\<not> inQuotes) cs
      else if c = comma \<and> \<not> inQuotes then [] # spec_fields inQuotes cs
      else (case spec_fields inQuotes cs of
              [] \<Rightarrow> [[c]]
            | f # fs \<Rightarrow> (c # f) # fs))"

text \<open>The number of delimiters of a line: the commas read while the flag is off.\<close>

fun delimiters :: "bool \<Rightarrow> string \<Rightarrow> nat" where
  "delimiters inQuotes [] = 0"
| "delimiters inQuotes (c # cs) =
     (if c = dquote then delimiters (\<not> inQuotes) cs
      else if c = comma \<and> \<not> inQuotes then Suc (delimiters inQuotes cs)
      else delimiters inQuotes cs)"

text \<open>The quote flag after a line has been read.\<close>

fun quote_flag :: "bool \<Rightarrow> string \<Rightarrow> bool" where
  "quote_flag inQuotes [] = inQuotes"
| "quote_flag inQuotes (c # cs) = quote_flag (if c = dquote then \<not> inQuotes else inQuotes) cs"

section \<open>import.js: the three modes\<close>

definition newline :: char where
  "newline = CHR 0x0A"

text \<open>
  One turn of the loop of \<^verbatim>\<open>processISBNFile\<close>, on the list \<^verbatim>\<open>books\<close> and the
  state.
\<close>

definition importISBN ::
  "openlibrary \<Rightarrow> (book_info \<Rightarrow> bool) \<Rightarrow> string \<Rightarrow> book_info list \<times> import_state \<Rightarrow>
   book_info list \<times> import_state" where
  "importISBN ol accepts raw acc =
     (let cleanISBN = strip_hyphens (trim raw);
          st1 = emit (Log ''Fetching data for ISBN'' cleanISBN) (snd acc);
          fetched = fetchBookInfo ol cleanISBN st1
      in case fst fetched of
           Some bookInfo \<Rightarrow>
             (fst acc @ [bookInfo],
              emit (Sleep 1000)
                (addBookToNotion accepts bookInfo (emit (Log ''Found'' cleanISBN) (snd fetched))))
         | None \<Rightarrow>
             (fst acc,
              emit (Sleep 1000) (emit (Log ''No data found for ISBN'' cleanISBN) (snd fetched))))"

fun importISBNs ::
  "openlibrary \<Rightarrow> (book_info \<Rightarrow> bool) \<Rightarrow> string list \<Rightarrow> book_info list \<times> import_state \<Rightarrow>
   book_info list \<times> import_state" where
  "importISBNs ol accepts [] acc = acc"
| "importISBNs ol accepts (raw # rest) acc =
     importISBNs ol accepts rest (importISBN ol accepts raw acc)"

text \<open>\<^verbatim>\<open>processISBNFile\<close>; the file content is \<^const>\<open>None\<close> when reading it throws.\<close>

definition processISBNFile ::
  "openlibrary \<Rightarrow> (book_info \<Rightarrow> bool) \<Rightarrow> string option \<Rightarrow> import_state \<Rightarrow> import_state" where
  "processISBNFile ol accepts fileContent st =
     (case fileContent of
        None \<Rightarrow> saveFailedIsbns (emit (LogError ''Error processing ISBN file'' []) st)
      | Some content \<Rightarrow>
          (let isbns = filter (\<lambda>l. trim l \<noteq> []) (split_on newline content);
               imported = importISBNs ol accepts isbns ([], emit (Log ''Processing ISBNs'' []) st);
               st2 = (if length (fst imported) > 0
                      then emit (Log ''Results saved to books.json and added to Notion database'' [])
                             (emit (Log ''Processing complete. Found books'' []) (snd imported))
                      else emit (Log ''Processing complete. No books were found'' []) (snd imported))
           in saveFailedIsbns st2))"

definition processSingleISBN ::
  "openlibrary \<Rightarrow> (book_info \<Rightarrow> bool) \<Rightarrow> string \<Rightarrow> import_state \<Rightarrow> import_state" where
  "processSingleISBN ol accepts raw st =
     (let cleanISBN = strip_hyphens (trim raw);
          fetched = fetchBookInfo ol cleanISBN (emit (Log ''Fetching data for ISBN'' cleanISBN) st)
      in case fst fetched of
           Some bookInfo \<Rightarrow>
             emit (Log ''Processing complete. Book added to Notion database'' [])
               (addBookToNotion accepts bookInfo (emit (Log ''Found'' cleanISBN) (snd fetched)))
         | None \<Rightarrow>
             saveFailedIsbns (emit (Log ''No data found for ISBN'' cleanISBN) (snd fetched)))"

text \<open>A row of the Goodreads export that has an identifier: an entry of
  \<^verbatim>\<open>booksToProcess\<close>.\<close>

record book_row =
  row_title :: string
  row_isbn :: "string option"
  row_isbn13 :: "string option"

text \<open>
  The value of an identifier column in a row: \<^verbatim>\<open>null\<close> when the header has no such
  column, when the row has no value there, or when nothing is left of the value
  without its equals signs, quotes and surrounding white space.
\<close>

definition column_value :: "nat option \<Rightarrow> string list \<Rightarrow> string option" where
  "column_value idx values =
     (case idx of
        None \<Rightarrow> None
      | Some i \<Rightarrow>
          (if no_value (at_index values i) then None
           else let v = trim (strip_equals_quotes (the (at_index values i)))
                in if v = [] then None else Some v))"

definition title_value :: "nat option \<Rightarrow> string list \<Rightarrow> string" where
  "title_value idx values =
     (case idx of
        None \<Rightarrow> ''Unknown Title''
      | Some i \<Rightarrow>
          (if no_value (at_index values i) then ''Unknown Title''
           else trim (strip_outer_quotes (the (at_index values i)))))"

text \<open>One turn of the loop over the data lines, on \<^verbatim>\<open>booksToProcess\<close> and the state.\<close>

definition collectRow ::
  "nat option \<Rightarrow> nat option \<Rightarrow> nat option \<Rightarrow> string \<Rightarrow> book_row list \<times> import_state \<Rightarrow>
   book_row list \<times> import_state" where
  "collectRow isbnIndex isbn13Index titleIndex line acc =
     (if trim line = [] then acc
      else let values = parseCSVLine line;
               i10 = column_value isbnIndex values;
               i13 = column_value isbn13Index values;
               t = title_value titleIndex values
           in if \<not> no_value i13 \<or> \<not> no_value i10
              then (fst acc @ [\<lparr>row_title = t, row_isbn = i10, row_isbn13 = i13\<rparr>], snd acc)
              else (fst acc, emit (Log ''Skipping book - no ISBN/ISBN13 found'' t) (snd acc)))"

fun collectRows ::
  "nat option \<Rightarrow> nat option \<Rightarrow> nat option \<Rightarrow> string list \<Rightarrow> book_row list \<times> import_state \<Rightarrow>
   book_row list \<times> import_state" where
  "collectRows isbnIndex isbn13Index titleIndex [] acc = acc"
| "collectRows isbnIndex isbn13Index titleIndex (line # rest) acc =
     collectRows isbnIndex isbn13Index titleIndex rest
       (collectRow isbnIndex isbn13Index titleIndex line acc)"

text \<open>
  One turn of the loop over \<^verbatim>\<open>booksToProcess\<close>, on \<^verbatim>\<open>successfulBooks\<close> and the
  state: ISBN13 first, then ISBN when there is still no record.
\<close>

definition importBook ::
  "openlibrary \<Rightarrow> (book_info \<Rightarrow> bool) \<Rightarrow> book_row \<Rightarrow> book_info list \<times> import_state \<Rightarrow>
   book_info list \<times> import_state" where
  "importBook ol accepts book acc =
     (let st0 = emit (Log ''Processing book'' (row_title book)) (snd acc);
          first = (if \<not> no_value (row_isbn13 book)
                   then let cleanISBN13 = strip_hyphens (trim (the (row_isbn13 book)))
                        in fetchBookInfo ol cleanISBN13 (emit (Log ''Trying ISBN13'' cleanISBN13) st0)
                   else (None, st0));
          second = (if fst first = None \<and> \<not> no_value (row_isbn book)
                    then let cleanISBN = strip_hyphens (trim (the (row_isbn book)))
                         in fetchBookInfo ol cleanISBN (emit (Log ''Trying ISBN'' cleanISBN) (snd first))
                    else first)
      in case fst second of
           Some bookInfo \<Rightarrow>
             (fst acc @ [bookInfo],
              emit (Sleep 1000)
                (addBookToNotion accepts bookInfo (emit (Log ''Found'' (isbn bookInfo)) (snd second))))
         | None \<Rightarrow>
             (let st3 = emit (Log ''No data found for book'' (row_title book)) (snd second);
                  st4 = (if \<not> no_value (row_isbn13 book)
                         then st3\<lparr>failedIsbns := failedIsbns st3 @ [the (row_isbn13 book)]\<rparr>
                         else if \<not> no_value (row_isbn book)
                         then st3\<lparr>failedIsbns := failedIsbns st3 @ [the (row_isbn book)]\<rparr>
                         else st3)
              in (fst acc, emit (Sleep 1000) st4)))"

fun importBooks ::
  "openlibrary \<Rightarrow> (book_info \<Rightarrow> bool) \<Rightarrow> book_row list \<Rightarrow> book_info list \<times> import_state \<Rightarrow>
   book_info list \<times> import_state" where
  "importBooks ol accepts [] acc = acc"
| "importBooks ol accepts (book # rest) acc =
     importBooks ol accepts rest (importBook ol accepts book acc)"

definition processGoodreadsCSV ::
  "openlibrary \<Rightarrow> (book_info \<Rightarrow> bool) \<Rightarrow> string option \<Rightarrow> import_state \<Rightarrow> import_state" where
  "processGoodreadsCSV ol accepts fileContent st =
     (case fileContent of
        None \<Rightarrow> saveFailedIsbns (emit (LogError ''Error processing Goodreads CSV file'' []) st)
      | Some content \<Rightarrow>
          (case split_on newline content of
             [] \<Rightarrow> st
           | headerLine # dataLines \<Rightarrow>
               (let headers = parseCSVLine headerLine;
                    isbnIndex = indexOf headers ''ISBN'';
                    isbn13Index = indexOf headers ''ISBN13'';
                    titleIndex = indexOf headers ''Title''
                in if isbnIndex = None \<and> isbn13Index = None
                   then emit (LogError ''Error: Could not find ISBN or ISBN13 columns'' []) st
                   else
                     (let collected = collectRows isbnIndex isbn13Index titleIndex dataLines
                                        ([], emit (Log ''Processing Goodreads export file'' []) st);
                          imported = importBooks ol accepts (fst collected)
                                       ([], emit (Log ''Found books with ISBNs'' []) (snd collected))
                      in saveFailedIsbns
                           (emit (Log ''Processing complete'' []) (snd imported))))))"

text \<open>Reading a trace: the identifiers looked up, the pauses, the queries.\<close>

fun lookups :: "event list \<Rightarrow> string list" where
  "lookups [] = []"
| "lookups (Lookup i # es) = i # lookups es"
| "lookups (e # es) = lookups es"

fun queries :: "event list \<Rightarrow> string option list" where
  "queries [] = []"
| "queries (Query c # es) = c # queries es"
| "queries (e # es) = queries es"

section \<open>Pagination\<close>

text \<open>
  What a query tells the loop about going on: the flag and the next cursor. An update
  changes neither.
\<close>

definition shape :: "notion \<Rightarrow> string option \<Rightarrow> (bool \<times> string option) option" where
  "shape d c = map_option (\<lambda>r. (has_more r, next_cursor r)) (query d c)"

text \<open>
  From a cursor the database serves exactly \<open>n\<close> pages: the first \<open>n - 1\<close> report
  \<^verbatim>\<open>has_more = true\<close>, the last reports \<^verbatim>\<open>has_more = false\<close>, and no query throws.
\<close>

fun page_chain :: "notion \<Rightarrow> string option \<Rightarrow> nat \<Rightarrow> bool" where
  "page_chain d c 0 = False"
| "page_chain d c (Suc n) =
     (case query d c of
        None \<Rightarrow> False
      | Some r \<Rightarrow> if has_more r then page_chain d (next_cursor r) n else n = 0)"

text \<open>The start cursors of these pages: the first, then the next cursor of each page but the last.\<close>

fun chain_cursors :: "notion \<Rightarrow> string option \<Rightarrow> nat \<Rightarrow> string option list" where
  "chain_cursors d c 0 = []"
| "chain_cursors d c (Suc n) =
     c # (case query d c of
            None \<Rightarrow> []
          | Some r \<Rightarrow> if has_more r then chain_cursors d (next_cursor r) n else [])"

section \<open>Example databases\<close>
definition book1 :: page where
  "book1 = \<lparr>page_id = ''p1'', title_text = Some ''Dune'', status_name = Some ''To Read'',
            page_icon = None, isbn_text = Some ''9780441013593'', total_pages = None\<rparr>"

definition two_pages :: notion where
  "two_pages =
     \<lparr>query = (\<lambda>c. if c = None
                     then Some \<lparr>results = [book1], has_more = True, next_cursor = Some ''c1''\<rparr>
                     else if c = Some ''c1''
                     then Some \<lparr>results = [], has_more = False, next_cursor = None\<rparr>
                     else None),
      rejects = (\<lambda>pid. False)\<rparr>"

definition constructor_page :: page where
  "constructor_page =
     \<lparr>page_id = ''p2'', title_text = Some ''Emma'', status_name = Some ''constructor'',
      page_icon = Some (EmojiIcon books), isbn_text = None, total_pages = None\<rparr>"

definition no_status_page :: page where
  "no_status_page =
     \<lparr>page_id = ''p3'', title_text = Some ''Ulysses'', status_name = None,
      page_icon = None, isbn_text = None, total_pages = None\<rparr>"

definition start_state :: "notion \<Rightarrow> run_state" where
  "start_state d = \<lparr>trace = [], db = d, totalUpdated = 0, totalSkipped = 0\<rparr>"

definition one_page :: "page list \<Rightarrow> bool \<Rightarrow> notion" where
  "one_page ps refuse =
     \<lparr>query = (\<lambda>c. if c = None
                     then Some \<lparr>results = ps, has_more = False, next_cursor = None\<rparr>
                     else None),
      rejects = (\<lambda>pid. refuse)\<rparr>"

definition book2 :: page where
  "book2 = \<lparr>page_id = ''p4'', title_text = Some ''Emma'', status_name = Some ''Completed'',
            page_icon = None, isbn_text = Some ''9780141439587'', total_pages = Some 100\<rparr>"

definition book0 :: page where
  "book0 = \<lparr>page_id = ''p6'', title_text = Some ''Emma'', status_name = Some ''Completed'',
            page_icon = None, isbn_text = Some ''9780141439587'', total_pages = Some 0\<rparr>"

definition no_entry :: openlibrary where
  "no_entry i = Body (JObj [])"

definition pages_200 :: openlibrary where
  "pages_200 i = Body (JObj [(''ISBN:'' @ i, JObj [(''title'', JStr ''Emma''), (''number_of_pages'', JNum 200)])])"

text \<open>The state in which the page-count loop sends its lookup for a page.\<close>

definition before_lookup :: "bool \<Rightarrow> page \<Rightarrow> pages_state \<Rightarrow> pages_state" where
  "before_lookup force p st =
     emit (Lookup (the (isbn_text p)))
       (emit (Log ''Fetching data'' (unknown_title (title_text p)))
          (if \<not> no_number (total_pages p) \<and> force
           then emit (Log ''Force updating'' (unknown_title (title_text p))) st else st))"

text \<open>The lookup finds an entry for the identifier, with a truthy page count \<open>v\<close>.\<close>

definition fetch_succeeds :: "openlibrary \<Rightarrow> page \<Rightarrow> json \<Rightarrow> bool" where
  "fetch_succeeds ol p v =
     (case fetchBookDataFromOpenLibrary ol (the (isbn_text p)) of
        Inl e \<Rightarrow> False
      | Inr bookData \<Rightarrow>
          truthy (Some bookData) \<and>
          get_prop (Some bookData) ''number_of_pages'' = Inr (Some v) \<and> truthy (Some v))"

definition book3 :: page where
  "book3 = \<lparr>page_id = ''p5'', title_text = Some ''Emma'', status_name = Some ''Completed'',
            page_icon = None, isbn_text = Some ''9780141439587'', total_pages = None\<rparr>"

section \<open>Reading the import\<close>

text \<open>An identifier as it is sent: trimmed, without hyphens.\<close>

definition cleaned :: "string \<Rightarrow> string" where
  "cleaned s = strip_hyphens (trim s)"

text \<open>The lookup of an identifier ends in the \<^verbatim>\<open>catch\<close> of \<^const>\<open>fetchBookInfo\<close>.\<close>

definition lookup_fails :: "openlibrary \<Rightarrow> string \<Rightarrow> bool" where
  "lookup_fails ol i = (case fetchBookInfo_try ol i of Inl e \<Rightarrow> True | Inr b \<Rightarrow> False)"

text \<open>
  The lookups of a row in the words of the specification: ISBN13 first when the row has
  one, then ISBN when the row has one and the ISBN13 lookup failed or there was no
  ISBN13. This definition follows the specification; it is compared with
  \<^const>\<open>importBook\<close> below.
\<close>

definition spec_attempts :: "openlibrary \<Rightarrow> book_row \<Rightarrow> string list" where
  "spec_attempts ol book =
     (if no_value (row_isbn13 book) then
        (if no_value (row_isbn book) then [] else [cleaned (the (row_isbn book))])
      else
        cleaned (the (row_isbn13 book)) #
          (if lookup_fails ol (cleaned (the (row_isbn13 book))) \<and> \<not> no_value (row_isbn book)
           then [cleaned (the (row_isbn book))] else []))"

definition import_start :: import_state where
  "import_start = \<lparr>trace = [], failedIsbns = []\<rparr>"

text \<open>The two lookups of \<^const>\<open>importBook\<close>, as the pairs it binds.\<close>

definition first_try :: "openlibrary \<Rightarrow> book_row \<Rightarrow> import_state \<Rightarrow> book_info option \<times> import_state" where
  "first_try ol book st =
     (if \<not> no_value (row_isbn13 book)
      then fetchBookInfo ol (cleaned (the (row_isbn13 book)))
             (emit (Log ''Trying ISBN13'' (cleaned (the (row_isbn13 book))))
                (emit (Log ''Processing book'' (row_title book)) st))
      else (None, emit (Log ''Processing book'' (row_title book)) st))"

definition second_try :: "openlibrary \<Rightarrow> book_row \<Rightarrow> import_state \<Rightarrow> book_info option \<times> import_state" where
  "second_try ol book st =
     (if fst (first_try ol book st) = None \<and> \<not> no_value (row_isbn book)
      then fetchBookInfo ol (cleaned (the (row_isbn book)))
             (emit (Log ''Trying ISBN'' (cleaned (the (row_isbn book)))) (snd (first_try ol book st)))
      else first_try ol book st)"

definition offline :: openlibrary where
  "offline i = NetworkFailure"

definition title_only :: openlibrary where
  "title_only i = Body (JObj [(''ISBN:'' @ i, JObj [(''title'', JStr ''Emma'')])])"

definition failed_once :: import_state where
  "failed_once = \<lparr>trace = [], failedIsbns = [''0141439580'']\<rparr>"

text \<open>The header fields of an export and its data lines: the lines after the first
  that are not blank.\<close>

definition header_of :: "string \<Rightarrow> string list" where
  "header_of content = parseCSVLine (hd (split_on newline content))"

definition data_rows :: "string \<Rightarrow> string list" where
  "data_rows content = filter (\<lambda>line. trim line \<noteq> []) (tl (split_on newline content))"

text \<open>
  The value of a data line in the column whose header field is the given name: the cell,
  without equals signs and quotes, trimmed; \<^const>\<open>None\<close> when there is no such
  column, no such cell or nothing left.
\<close>

definition cell_value :: "string list \<Rightarrow> string \<Rightarrow> string \<Rightarrow> string option" where
  "cell_value headers name line = column_value (indexOf headers name) (parseCSVLine line)"

text \<open>
  A data line as the specification reads it: its ISBN is the value in the column named
  \<^verbatim>\<open>ISBN\<close>, its ISBN13 the value in the column named \<^verbatim>\<open>ISBN13\<close>. This
  definition follows the specification; it is compared with \<^const>\<open>collectRows\<close>
  below.
\<close>

definition spec_row :: "string list \<Rightarrow> string \<Rightarrow> book_row" where
  "spec_row headers line =
     \<lparr>row_title = title_value (indexOf headers ''Title'') (parseCSVLine line),
      row_isbn = cell_value headers ''ISBN'' line,
      row_isbn13 = cell_value headers ''ISBN13'' line\<rparr>"

text \<open>The identifier of a row as the export wrote it: the ISBN13, or the ISBN when the
  row has no ISBN13.\<close>

definition raw_id :: "book_row \<Rightarrow> string list" where
  "raw_id book =
     (if \<not> no_value (row_isbn13 book) then [the (row_isbn13 book)]
      else if \<not> no_value (row_isbn book) then [the (row_isbn book)] else [])"

text \<open>
  What a row adds to the failure log: every identifier whose lookup failed, and, when
  all lookups of the row failed, the identifier of the row as the export wrote it.
\<close>

definition spec_failures :: "openlibrary \<Rightarrow> book_row \<Rightarrow> string list" where
  "spec_failures ol book =
     filter (lookup_fails ol) (spec_attempts ol book) @
       (if list_all (lookup_fails ol) (spec_attempts ol book) then raw_id book else [])"

text \<open>An export with three data lines: one with both identifiers, one with empty
  identifiers, one whose identifiers are a no-break space each.\<close>

definition header_line :: string where
  "header_line = ''Title,ISBN,ISBN13''"

definition emma_line :: string where
  \<open>emma_line = ''Emma,="0141439580",="978-0141439587"''\<close>

definition dune_line :: string where
  \<open>dune_line = ''Dune,="",=""''\<close>

definition nbsp_line :: string where
  "nbsp_line = ''Ulysses,'' @ [CHR 0xC2, CHR 0xA0] @ '','' @ [CHR 0xC2, CHR 0xA0]"

definition goodreads_file :: string where
  "goodreads_file =
     header_line @ [newline] @ emma_line @ [newline] @ dune_line @ [newline] @
     nbsp_line @ [newline]"

text \<open>
  The same book in a file whose lines end in carriage return and line feed: the last
  field of the header is then \<^verbatim>\<open>ISBN13\<close> followed by a carriage return, which
  \<^verbatim>\<open>indexOf\<close> does not find, so the file has no column named \<^verbatim>\<open>ISBN13\<close>.
\<close>

definition crlf_file :: string where
  "crlf_file = header_line @ [CHR 0x0D, newline] @ emma_line @ [CHR 0x0D, newline]"

section \<open>Reading two runs of the page-count script\<close>

text \<open>The service accepts a page count for a page: the value is a number and the page
  is not one it rejects.\<close>

definition accepts_pages :: "notion \<Rightarrow> string \<Rightarrow> json \<Rightarrow> bool" where
  "accepts_pages d pid v = (case v of JNum n \<Rightarrow> \<not> rejects d pid | _ \<Rightarrow> False)"

text \<open>The lookup for a page yields a page count that the service accepts.\<close>

definition would_accept :: "notion \<Rightarrow> openlibrary \<Rightarrow> page \<Rightarrow> bool" where
  "would_accept d ol p =
     (\<not> no_value (isbn_text p) \<and>
      (case fetchBookDataFromOpenLibrary ol (the (isbn_text p)) of
         Inl e \<Rightarrow> False
       | Inr bookData \<Rightarrow>
           truthy (Some bookData) \<and>
           (case get_prop (Some bookData) ''number_of_pages'' of
              Inl e \<Rightarrow> False
            | Inr nPages \<Rightarrow> truthy nPages \<and> accepts_pages d (page_id p) (the nPages))))"

text \<open>Without the force flag the loop writes a page count for a page: the page has an
  identifier and no page count, and the lookup yields a count that the service accepts.\<close>

definition refreshes :: "notion \<Rightarrow> openlibrary \<Rightarrow> page \<Rightarrow> bool" where
  "refreshes d ol p = (no_number (total_pages p) \<and> would_accept d ol p)"

text \<open>An entry after some updates of page counts: the same page and identifier, and a
  page count where there was one.\<close>

definition page_le :: "page \<Rightarrow> page \<Rightarrow> bool" where
  "page_le p p' =
     (page_id p' = page_id p \<and> isbn_text p' = isbn_text p \<and>
      (\<not> no_number (total_pages p) \<longrightarrow> \<not> no_number (total_pages p')))"

text \<open>A database after some accepted updates of page counts: the same answers to every
  query, entry by entry, up to page counts filled in; the same pages rejected.\<close>

definition grows :: "notion \<Rightarrow> notion \<Rightarrow> bool" where
  "grows d d' =
     (rejects d' = rejects d \<and>
      (\<forall>c. rel_option
             (\<lambda>r r'. has_more r' = has_more r \<and> next_cursor r' = next_cursor r \<and>
                     list_all2 page_le (results r) (results r'))
             (query d c) (query d' c)))"

text \<open>The entries the database can return.\<close>

definition db_entries :: "notion \<Rightarrow> page set" where
  "db_entries d = {p. \<exists>c r. query d c = Some r \<and> p \<in> set (results r)}"

text \<open>Every entry of a page has a page count.\<close>

definition filled :: "notion \<Rightarrow> string \<Rightarrow> bool" where
  "filled d pid = (\<forall>p \<in> db_entries d. page_id p = pid \<longrightarrow> \<not> no_number (total_pages p))"

text \<open>The page count the lookup for a page yields, if any.\<close>

definition fetched_pages :: "openlibrary \<Rightarrow> page \<Rightarrow> json option" where
  "fetched_pages ol p =
     (case fetchBookDataFromOpenLibrary ol (the (isbn_text p)) of
        Inl e \<Rightarrow> None
      | Inr bookData \<Rightarrow>
          if truthy (Some bookData) then
            (case get_prop (Some bookData) ''number_of_pages'' of
               Inl e \<Rightarrow> None
             | Inr nPages \<Rightarrow> if truthy nPages then nPages else None)
          else None)"

text \<open>The page-count updates requested in a trace.\<close>

fun updates :: "event list \<Rightarrow> (string \<times> json) list" where
  "updates [] = []"
| "updates (UpdatePages pid v # es) = (pid, v) # updates es"
| "updates (e # es) = updates es"

text \<open>Every page that a query with this cursor returns is one the loop leaves alone.\<close>

definition settled_at :: "notion \<Rightarrow> openlibrary \<Rightarrow> string option \<Rightarrow> bool" where
  "settled_at d ol c =
     (case query d c of None \<Rightarrow> True | Some r \<Rightarrow> \<forall>p \<in> set (results r). \<not> refreshes d ol p)"

text \<open>Every update in the trace that the service accepted has left all entries of its
  page with a page count.\<close>

definition written_filled :: "pages_state \<Rightarrow> bool" where
  "written_filled st =
     (\<forall>u \<in> set (updates (trace st)). accepts_pages (db st) (fst u) (snd u) \<longrightarrow> filled (db st) (fst u))"

text \<open>No update in the trace is for a page all of whose entries have a page count.\<close>

definition updates_unfilled :: "notion \<Rightarrow> pages_state \<Rightarrow> bool" where
  "updates_unfilled d st = (\<forall>u \<in> set (updates (trace st)). \<not> filled d (fst u))"

text \<open>Every cursor queried in the trace is one whose pages the loop leaves alone.\<close>

definition queries_settled :: "notion \<Rightarrow> openlibrary \<Rightarrow> pages_state \<Rightarrow> bool" where
  "queries_settled d ol st = (\<forall>c \<in> set (queries (trace st)). settled_at d ol c)"

text \<open>The states after a first and a second run on a database of one page.\<close>

definition after_first :: pages_state where
  "after_first =
     \<lparr>trace = [Log ''Starting to update book total pages'' [], Query None,
               Log ''Processing batch of books'' [],
               Log ''Fetching data'' ''Dune'', Lookup ''9780441013593'',
               UpdatePages ''p1'' (JNum 200), Log ''Updated'' ''Dune'', Sleep 500,
               Log ''Batch complete. No more pages'' [], Log ''Summary'' []],
      db = set_pages ''p1'' 200 (one_page [book1] False),
      totalUpdated = 1, totalSkipped = 0, totalMissingISBN = 0, totalFailedFetch = 0,
      totalForceUpdated = 0\<rparr>"

definition after_second :: pages_state where
  "after_second =
     \<lparr>trace = [Log ''Starting to update book total pages'' [], Query None,
               Log ''Processing batch of books'' [],
               Log ''Skipping - already has pages'' ''Dune'',
               Log ''Batch complete. No more pages'' [], Log ''Summary'' []],
      db = set_pages ''p1'' 200 (one_page [book1] False),
      totalUpdated = 0, totalSkipped = 1, totalMissingISBN = 0, totalFailedFetch = 0,
      totalForceUpdated = 0\<rparr>"

section \<open>Properties of the CSV line parser\<close>

lemma spec_fields_nonempty: "spec_fields q cs \<noteq> []"
  by (induction cs arbitrary: q) (auto split: list.splits)

lemma comma_not_dquote: "comma \<noteq> dquote"
  by (simp add: comma_def dquote_def)

lemma parseCSV_loop_spec:
  "parseCSV_loop cs result current q =
     result @ (current @ hd (spec_fields q cs)) # tl (spec_fields q cs)"
proof (induction cs arbitrary: result current q)
  case Nil
  show ?case by simp
next
  case (Cons c cs)
  obtain f fs where f: "spec_fields q cs = f # fs"
    using spec_fields_nonempty [of q cs] by (cases "spec_fields q cs") auto
  show ?case
  proof (cases "c = dquote")
    case True
    then show ?thesis using Cons [of result current "\<not> q"] by simp
  next
    case False
    show ?thesis
    proof (cases "c = comma \<and> \<not> q")
      case True
      then show ?thesis
        using False f Cons [of "result @ [current]" "[]" q] by simp
    next
      case False
      then show ?thesis
        using \<open>c \<noteq> dquote\<close> f Cons [of result "current @ [c]" q] by auto
    qed
  qed
qed

lemma parseCSVLine_spec: "parseCSVLine line = spec_fields False line"
  using spec_fields_nonempty [of False line]
  by (cases "spec_fields False line") (simp_all add: parseCSVLine_def parseCSV_loop_spec)

lemma length_spec_fields: "length (spec_fields q cs) = Suc (delimiters q cs)"
proof (induction cs arbitrary: q)
  case Nil
  show ?case by simp
next
  case (Cons c cs)
  obtain f fs where f: "spec_fields q cs = f # fs"
    using spec_fields_nonempty [of q cs] by (cases "spec_fields q cs") auto
  show ?case
    using Cons [of q] Cons [of "\<not> q"] f by auto
qed

lemma parseCSV_loop_append:
  "parseCSV_loop (xs @ ys) result current q =
     parseCSV_loop ys (butlast (parseCSV_loop xs result current q))
       (last (parseCSV_loop xs result current q)) (quote_flag q xs)"
  by (induction xs arbitrary: result current q) auto

lemma parseCSV_loop_nonempty: "parseCSV_loop cs result current q \<noteq> []"
  by (simp add: parseCSV_loop_spec)

text \<open>
  Claim C9. \<^verbatim>\<open>parseCSVLine('a,"b,c",d')\<close> is \<^verbatim>\<open>['a','b,c','d']\<close> and
  \<^verbatim>\<open>parseCSVLine('x,y,')\<close> is \<^verbatim>\<open>['x','y','']\<close>. In general the parser is the
  splitter of the specification (the flag toggles on every quote character and a comma
  splits only while the flag is off), it returns one field more than the line has
  delimiters, so the trailing field is always emitted, and a line that ends with a
  delimiter outside quotes gets an empty trailing field.
\<close>

theorem parseCSVLine_correct:
  \<open>parseCSVLine ''a,"b,c",d'' = [''a'', ''b,c'', ''d''] \<and>
   parseCSVLine ''x,y,'' = [''x'', ''y'', ''''] \<and>
   (\<forall>line. parseCSVLine line = spec_fields False line) \<and>
   (\<forall>line. length (parseCSVLine line) = Suc (delimiters False line)) \<and>
   (\<forall>line. \<not> quote_flag False line \<longrightarrow>
      parseCSVLine (line @ [comma]) = parseCSVLine line @ [''''])\<close>
proof -
  have ex1: \<open>parseCSVLine ''a,"b,c",d'' = [''a'', ''b,c'', ''d'']\<close>
    by (simp add: parseCSVLine_def dquote_def comma_def)
  have ex2: \<open>parseCSVLine ''x,y,'' = [''x'', ''y'', '''']\<close>
    by (simp add: parseCSVLine_def dquote_def comma_def)
  have tr: "parseCSVLine (line @ [comma]) = parseCSVLine line @ ['''']"
    if "\<not> quote_flag False line" for line
  proof -
    have "parseCSV_loop [comma] rs cur False = rs @ [cur, []]" for rs cur
      using comma_not_dquote by simp
    then show ?thesis
      using that parseCSV_loop_nonempty [of line "[]" "[]" False]
      by (simp add: parseCSVLine_def parseCSV_loop_append [of line "[comma]"])
  qed
  show ?thesis
    using ex1 ex2 tr by (simp add: parseCSVLine_spec length_spec_fields)
qed

theorem parseCSVLine_correct_witness:
  \<open>\<not> quote_flag False ''"a,b"'' \<and>
   parseCSVLine (''"a,b"'' @ [comma]) = [''a,b'', ''''] \<and>
   length (parseCSVLine ''"a,b"'') = Suc (delimiters False ''"a,b"'')\<close>
proof -
  have q: \<open>\<not> quote_flag False ''"a,b"''\<close>
    by (simp add: dquote_def)
  have p: \<open>parseCSVLine ''"a,b"'' = [''a,b'']\<close>
    by (simp add: parseCSVLine_def dquote_def comma_def)
  have "\<forall>line. \<not> quote_flag False line \<longrightarrow>
       parseCSVLine (line @ [comma]) = parseCSVLine line @ ['''']"
    and l: "\<forall>line. length (parseCSVLine line) = Suc (delimiters False line)"
    using parseCSVLine_correct by blast+
  then have \<open>parseCSVLine (''"a,b"'' @ [comma]) = parseCSVLine ''"a,b"'' @ ['''']\<close>
    using q by blast
  then have \<open>parseCSVLine (''"a,b"'' @ [comma]) = [''a,b'', '''']\<close>
    by (simp only: p append.simps)
  then show ?thesis
    using q l by blast
qed

section \<open>Properties of the pagination loops\<close>

lemma trace_emit [simp]: "trace (emit e st) = trace st @ [e]"
  by (simp add: emit_def)

lemma db_emit [simp]: "db (emit e st) = db st"
  by (simp add: emit_def)

lemma totalUpdated_emit [simp]: "totalUpdated (emit e st) = totalUpdated st"
  by (simp add: emit_def)

lemma totalSkipped_emit [simp]: "totalSkipped (emit e st) = totalSkipped st"
  by (simp add: emit_def)

lemma queries_append: "queries (xs @ ys) = queries xs @ queries ys"
  by (induction xs rule: queries.induct) simp_all

lemma shape_map_pages: "shape (map_pages f d) = shape d"
  by (rule ext) (simp add: shape_def map_pages_def option.map_comp comp_def)

lemma shape_update_icon: "update_icon d pid v = Some d' \<Longrightarrow> shape d' = shape d"
  by (auto simp add: update_icon_def set_icon_def shape_map_pages split: emoji_val.splits if_splits)

lemma shape_update_pages: "update_pages d pid v = Some d' \<Longrightarrow> shape d' = shape d"
  by (auto simp add: update_pages_def set_pages_def shape_map_pages split: json.splits if_splits)

lemma decideIcon_NoStatus: "(decideIcon p = NoStatus) = no_value (status_name p)"
  by (simp add: decideIcon_def Let_def)

lemma iconRecord_shape: "shape (db (iconRecord p st)) = shape (db st)"
proof (cases "decideIcon p")
  case (Update v)
  then show ?thesis
    using shape_update_icon [of "db st" "page_id p" v]
    by (cases "update_icon (db st) (page_id p) v") (simp_all add: iconRecord_def Let_def)
qed (simp_all add: iconRecord_def)

lemma iconRecord_queries: "queries (trace (iconRecord p st)) = queries (trace st)"
  by (simp add: iconRecord_def Let_def queries_append split: decision.splits option.splits)

lemma iconBatch_shape: "shape (db (iconBatch ps st)) = shape (db st)"
  by (induction ps arbitrary: st) (simp_all add: iconRecord_shape)

lemma iconBatch_queries: "queries (trace (iconBatch ps st)) = queries (trace st)"
  by (induction ps arbitrary: st) (simp_all add: iconRecord_queries)

lemma shape_at:
  "shape d = shape d' \<Longrightarrow>
   map_option (\<lambda>r. (has_more r, next_cursor r)) (query d c) =
   map_option (\<lambda>r. (has_more r, next_cursor r)) (query d' c)"
  unfolding shape_def by (rule fun_cong)

lemma shape_query_None: "shape d = shape d' \<Longrightarrow> query d c = None \<Longrightarrow> query d' c = None"
  using shape_at [of d d' c] by simp

lemma shape_query_Some:
  "shape d = shape d' \<Longrightarrow> query d c = Some r \<Longrightarrow>
   \<exists>r'. query d' c = Some r' \<and> has_more r' = has_more r \<and> next_cursor r' = next_cursor r"
  using shape_at [of d d' c] by (cases "query d' c") auto

lemma page_chain_shape: "shape d = shape d' \<Longrightarrow> page_chain d c n = page_chain d' c n"
proof (induction n arbitrary: c)
  case 0
  show ?case by simp
next
  case (Suc n)
  show ?case
  proof (cases "query d c")
    case None
    then show ?thesis using shape_query_None [OF Suc.prems None] by simp
  next
    case (Some r)
    obtain r' where "query d' c = Some r'" "has_more r' = has_more r" "next_cursor r' = next_cursor r"
      using shape_query_Some [OF Suc.prems Some] by blast
    then show ?thesis using Some Suc.IH [OF Suc.prems, of "next_cursor r"] by simp
  qed
qed

lemma chain_cursors_shape: "shape d = shape d' \<Longrightarrow> chain_cursors d c n = chain_cursors d' c n"
proof (induction n arbitrary: c)
  case 0
  show ?case by simp
next
  case (Suc n)
  show ?case
  proof (cases "query d c")
    case None
    then show ?thesis using shape_query_None [OF Suc.prems None] by simp
  next
    case (Some r)
    obtain r' where "query d' c = Some r'" "has_more r' = has_more r" "next_cursor r' = next_cursor r"
      using shape_query_Some [OF Suc.prems Some] by blast
    then show ?thesis using Some Suc.IH [OF Suc.prems, of "next_cursor r"] by simp
  qed
qed

lemma length_chain_cursors: "page_chain d c n \<Longrightarrow> length (chain_cursors d c n) = n"
  by (induction n arbitrary: c) (auto split: option.splits if_splits)

lemma iconLoop_chain:
  "page_chain (db st) c n \<Longrightarrow> n \<le> fuel \<Longrightarrow>
   \<exists>s. iconLoop fuel c st = Some s \<and>
       queries (trace s) = queries (trace st) @ chain_cursors (db st) c n \<and>
       last (trace s) = Log ''Icon update complete'' []"
proof (induction n arbitrary: fuel c st)
  case 0
  then show ?case by simp
next
  case (Suc n)
  obtain k where k: "fuel = Suc k" "n \<le> k"
    using Suc.prems(2) by (cases fuel) auto
  obtain r where r: "query (db st) c = Some r"
    using Suc.prems(1) by (cases "query (db st) c") auto
  define st3 where "st3 = emit (Log (if has_more r then ''Batch complete. Moving to next page''
                                   else ''Batch complete. No more pages'') [])
       (iconBatch (results r) (emit (Log ''Processing batch of books'' []) (emit (Query c) st)))"
  have sh: "shape (db st3) = shape (db st)"
    by (simp add: st3_def iconBatch_shape)
  have q3: "queries (trace st3) = queries (trace st) @ [c]"
    by (simp add: st3_def iconBatch_queries queries_append)
  show ?case
  proof (cases "has_more r")
    case True
    then have "page_chain (db st) (next_cursor r) n"
      using Suc.prems(1) r by simp
    then have "page_chain (db st3) (next_cursor r) n"
      using page_chain_shape [OF sh] by simp
    from Suc.IH [OF this k(2)] obtain s where
      s: "iconLoop k (next_cursor r) st3 = Some s"
         "queries (trace s) = queries (trace st3) @ chain_cursors (db st3) (next_cursor r) n"
         "last (trace s) = Log ''Icon update complete'' []"
      by blast
    have "iconLoop fuel c st = Some s"
      using k r True s(1) by (simp add: st3_def Let_def)
    moreover have "queries (trace s) = queries (trace st) @ chain_cursors (db st) c (Suc n)"
      using s(2) q3 r True chain_cursors_shape [OF sh] by simp
    ultimately show ?thesis using s(3) by blast
  next
    case False
    then have n0: "n = 0"
      using Suc.prems(1) r by simp
    have "iconLoop fuel c st = Some (emit (Log ''Icon update complete'' []) st3)"
      using k r False by (simp add: st3_def Let_def)
    moreover have "queries (trace (emit (Log ''Icon update complete'' []) st3)) =
        queries (trace st) @ chain_cursors (db st) c (Suc n)"
      using q3 r False by (simp add: queries_append)
    ultimately show ?thesis by simp
  qed
qed

lemma iconLoop_short:
  "page_chain (db st) c n \<Longrightarrow> fuel < n \<Longrightarrow> iconLoop fuel c st = None"
proof (induction fuel arbitrary: n c st)
  case 0
  show ?case by simp
next
  case (Suc k)
  obtain m where m: "n = Suc m" "k < m"
    using Suc.prems(2) by (cases n) auto
  obtain r where r: "query (db st) c = Some r"
    using Suc.prems(1) m by (cases "query (db st) c") auto
  define st3 where "st3 = emit (Log (if has_more r then ''Batch complete. Moving to next page''
                                   else ''Batch complete. No more pages'') [])
       (iconBatch (results r) (emit (Log ''Processing batch of books'' []) (emit (Query c) st)))"
  have sh: "shape (db st3) = shape (db st)"
    by (simp add: st3_def iconBatch_shape)
  have hm: "has_more r" and pc: "page_chain (db st) (next_cursor r) m"
    using Suc.prems(1) m r by (auto split: if_splits)
  have "page_chain (db st3) (next_cursor r) m"
    using pc page_chain_shape [OF sh] by simp
  from Suc.IH [OF this m(2)] show ?case
    using r hm by (simp add: st3_def Let_def)
qed

lemma totalFailedFetch_emit [simp]: "totalFailedFetch (emit e st) = totalFailedFetch st"
  and totalMissingISBN_emit [simp]: "totalMissingISBN (emit e st) = totalMissingISBN st"
  and totalForceUpdated_emit [simp]: "totalForceUpdated (emit e st) = totalForceUpdated st"
  by (simp_all add: emit_def)

lemma failedFetch_simps [simp]:
  "trace (failedFetch st) = trace st"
  "db (failedFetch st) = db st"
  "totalUpdated (failedFetch st) = totalUpdated st"
  "totalSkipped (failedFetch st) = totalSkipped st"
  "totalMissingISBN (failedFetch st) = totalMissingISBN st"
  "totalForceUpdated (failedFetch st) = totalForceUpdated st"
  "totalFailedFetch (failedFetch st) = Suc (totalFailedFetch st)"
  by (simp_all add: failedFetch_def)

lemma pagesRecord_shape: "shape (db (pagesRecord ol force p st)) = shape (db st)"
  by (auto simp add: pagesRecord_def Let_def split: sum.splits option.splits dest: shape_update_pages)

lemma pagesRecord_queries: "queries (trace (pagesRecord ol force p st)) = queries (trace st)"
  by (simp add: pagesRecord_def Let_def queries_append split: sum.splits option.splits)

lemma pagesBatch_shape: "shape (db (pagesBatch ol force ps st)) = shape (db st)"
  by (induction ps arbitrary: st) (simp_all add: pagesRecord_shape)

lemma pagesBatch_queries: "queries (trace (pagesBatch ol force ps st)) = queries (trace st)"
  by (induction ps arbitrary: st) (simp_all add: pagesRecord_queries)

lemma pagesLoop_chain:
  "page_chain (db st) c n \<Longrightarrow> n \<le> fuel \<Longrightarrow>
   \<exists>s. pagesLoop fuel ol force c st = Some s \<and>
       queries (trace s) = queries (trace st) @ chain_cursors (db st) c n \<and>
       last (trace s) = Log ''Summary'' []"
proof (induction n arbitrary: fuel c st)
  case 0
  then show ?case by simp
next
  case (Suc n)
  obtain k where k: "fuel = Suc k" "n \<le> k"
    using Suc.prems(2) by (cases fuel) auto
  obtain r where r: "query (db st) c = Some r"
    using Suc.prems(1) by (cases "query (db st) c") auto
  define st3 where "st3 = emit (Log (if has_more r then ''Batch complete. Moving to next page''
                                   else ''Batch complete. No more pages'') [])
       (pagesBatch ol force (results r)
          (emit (Log ''Processing batch of books'' []) (emit (Query c) st)))"
  have sh: "shape (db st3) = shape (db st)"
    by (simp add: st3_def pagesBatch_shape)
  have q3: "queries (trace st3) = queries (trace st) @ [c]"
    by (simp add: st3_def pagesBatch_queries queries_append)
  show ?case
  proof (cases "has_more r")
    case True
    then have "page_chain (db st) (next_cursor r) n"
      using Suc.prems(1) r by simp
    then have "page_chain (db st3) (next_cursor r) n"
      using page_chain_shape [OF sh] by simp
    from Suc.IH [OF this k(2)] obtain s where
      s: "pagesLoop k ol force (next_cursor r) st3 = Some s"
         "queries (trace s) = queries (trace st3) @ chain_cursors (db st3) (next_cursor r) n"
         "last (trace s) = Log ''Summary'' []"
      by blast
    have "pagesLoop fuel ol force c st = Some s"
      using k r True s(1) by (simp add: st3_def Let_def)
    moreover have "queries (trace s) = queries (trace st) @ chain_cursors (db st) c (Suc n)"
      using s(2) q3 r True chain_cursors_shape [OF sh] by simp
    ultimately show ?thesis using s(3) by blast
  next
    case False
    then have n0: "n = 0"
      using Suc.prems(1) r by simp
    have "pagesLoop fuel ol force c st = Some (emit (Log ''Summary'' []) st3)"
      using k r False by (simp add: st3_def Let_def)
    moreover have "queries (trace (emit (Log ''Summary'' []) st3)) =
        queries (trace st) @ chain_cursors (db st) c (Suc n)"
      using q3 r False by (simp add: queries_append)
    ultimately show ?thesis by simp
  qed
qed

lemma pagesLoop_short:
  "page_chain (db st) c n \<Longrightarrow> fuel < n \<Longrightarrow> pagesLoop fuel ol force c st = None"
proof (induction fuel arbitrary: n c st)
  case 0
  show ?case by simp
next
  case (Suc k)
  obtain m where m: "n = Suc m" "k < m"
    using Suc.prems(2) by (cases n) auto
  obtain r where r: "query (db st) c = Some r"
    using Suc.prems(1) m by (cases "query (db st) c") auto
  define st3 where "st3 = emit (Log (if has_more r then ''Batch complete. Moving to next page''
                                   else ''Batch complete. No more pages'') [])
       (pagesBatch ol force (results r)
          (emit (Log ''Processing batch of books'' []) (emit (Query c) st)))"
  have sh: "shape (db st3) = shape (db st)"
    by (simp add: st3_def pagesBatch_shape)
  have hm: "has_more r" and pc: "page_chain (db st) (next_cursor r) m"
    using Suc.prems(1) m r by (auto split: if_splits)
  have "page_chain (db st3) (next_cursor r) m"
    using pc page_chain_shape [OF sh] by simp
  from Suc.IH [OF this m(2)] show ?case
    using r hm by (simp add: st3_def Let_def)
qed

lemma pages_start_simps:
  "db (pages_start force d) = d"
  "queries (trace (pages_start force d)) = []"
  by (simp_all add: pages_start_def Let_def emit_def)

text \<open>
  Claim C2. When the database serves \<open>N\<close> pages, the first \<open>N - 1\<close> with
  \<^verbatim>\<open>has_more = true\<close> and the last with \<^verbatim>\<open>has_more = false\<close>, each of the two
  loops ends, after exactly \<open>N\<close> queries (with fuel for fewer than \<open>N\<close> iterations it
  has not ended), and the cursors queried are the start and the next cursors of the
  first \<open>N - 1\<close> pages: the cursor of the last page is never sent.
\<close>

theorem pagination_exactly_N:
  assumes "page_chain d None N"
  shows "(\<forall>fuel. N \<le> fuel \<longrightarrow>
            (\<exists>s. updateBookIcons fuel d = Some s \<and>
                 queries (trace s) = chain_cursors d None N \<and>
                 length (queries (trace s)) = N)) \<and>
         (\<forall>fuel. fuel < N \<longrightarrow> updateBookIcons fuel d = None) \<and>
         (\<forall>fuel. N \<le> fuel \<longrightarrow>
            (\<exists>s. updateBookTotalPages fuel ol force d = Some s \<and>
                 queries (trace s) = chain_cursors d None N \<and>
                 length (queries (trace s)) = N)) \<and>
         (\<forall>fuel. fuel < N \<longrightarrow> updateBookTotalPages fuel ol force d = None)"
proof -
  let ?i = "\<lparr>trace = [], db = d, totalUpdated = 0, totalSkipped = 0\<rparr>"
  have pi: "page_chain (db ?i) None N" and pp: "page_chain (db (pages_start force d)) None N"
    using assms by (simp_all add: pages_start_simps)
  have a: "\<exists>s. updateBookIcons fuel d = Some s \<and> queries (trace s) = chain_cursors d None N \<and>
              length (queries (trace s)) = N" if "N \<le> fuel" for fuel
    using iconLoop_chain [OF pi that] length_chain_cursors [OF assms]
    by (auto simp add: updateBookIcons_def)
  have b: "updateBookIcons fuel d = None" if "fuel < N" for fuel
    using iconLoop_short [OF pi that] by (simp add: updateBookIcons_def)
  have c: "\<exists>s. updateBookTotalPages fuel ol force d = Some s \<and>
              queries (trace s) = chain_cursors d None N \<and>
              length (queries (trace s)) = N" if "N \<le> fuel" for fuel
    using pagesLoop_chain [OF pp that, of ol force] length_chain_cursors [OF assms]
    by (auto simp add: updateBookTotalPages_def pages_start_simps)
  have e: "updateBookTotalPages fuel ol force d = None" if "fuel < N" for fuel
    using pagesLoop_short [OF pp that] by (simp add: updateBookTotalPages_def)
  show ?thesis
    using a b c e by blast
qed

lemma two_pages_chain: "page_chain two_pages None 2"
  by (simp add: two_pages_def numeral_2_eq_2)

theorem pagination_exactly_N_witness:
  "page_chain two_pages None 2 \<and>
   (\<exists>s. updateBookIcons 2 two_pages = Some s \<and> queries (trace s) = [None, Some ''c1'']) \<and>
   updateBookIcons 1 two_pages = None \<and>
   (\<exists>s. updateBookTotalPages 2 (\<lambda>i. NetworkFailure) False two_pages = Some s \<and>
        queries (trace s) = [None, Some ''c1''])"
proof -
  have c: "chain_cursors two_pages None 2 = [None, Some ''c1'']"
    by (simp add: two_pages_def numeral_2_eq_2)
  show ?thesis
    using pagination_exactly_N [OF two_pages_chain, of "\<lambda>i. NetworkFailure" False] two_pages_chain
    unfolding c by (meson le_refl one_less_numeral_iff semiring_norm(76))
qed

section \<open>Properties of the icon script\<close>

lemma expectedEmoji_own:
  "status \<notin> set object_prototype_names \<Longrightarrow>
   expectedEmoji status = Glyph (case map_of EMOJIS status of Some g \<Rightarrow> g | None \<Rightarrow> books)"
  by (auto simp add: expectedEmoji_def EMOJIS_get_def EMOJIS_def
      open_book_def blue_book_def green_book_def red_book_def split: option.splits)

lemma decideIcon_table_or_fallback:
  assumes "\<not> no_value (status_name p)" "the (status_name p) \<notin> set object_prototype_names"
  shows "(decideIcon p = Skip) =
           (currentEmoji p =
              Some (case map_of EMOJIS (the (status_name p)) of Some g \<Rightarrow> g | None \<Rightarrow> books))"
    and "decideIcon p \<noteq> Skip \<Longrightarrow>
           decideIcon p =
             Update (Glyph (case map_of EMOJIS (the (status_name p)) of Some g \<Rightarrow> g | None \<Rightarrow> books))"
  using assms by (auto simp add: decideIcon_def Let_def same_emoji_def expectedEmoji_own)

text \<open>
  Claim C1. For a page with a status, the decision is to skip exactly when the current
  icon is the glyph of the table for that status, or the fallback glyph when the table
  has no entry; otherwise the icon alone is updated, to that glyph
  (\<open>decideIcon_table_or_fallback\<close> above, for every status that is not the name of a
  member of \<^verbatim>\<open>Object.prototype\<close>). The code misses the claim for a status such as
  \<^verbatim>\<open>constructor\<close>: the table has no entry for it and the page already carries the
  fallback glyph, yet the decision is an update, with the inherited member as the value.
\<close>

theorem decideIcon_inherited_name:
  "\<not> no_value (status_name constructor_page) \<and>
   map_of EMOJIS (the (status_name constructor_page)) = None \<and>
   currentEmoji constructor_page = Some books \<and>
   decideIcon constructor_page = Update (Inherited ''constructor'')"
  by (simp add: constructor_page_def no_value_def EMOJIS_def currentEmoji_def decideIcon_def
      expectedEmoji_def EMOJIS_get_def object_prototype_names_def same_emoji_def)

lemma iconRecord_counts:
  "totalUpdated (iconRecord p st) + totalSkipped (iconRecord p st) +
     (if no_value (status_name p) then 1 else 0)
   \<le> Suc (totalUpdated st + totalSkipped st)"
proof (cases "decideIcon p")
  case NoStatus
  then show ?thesis by (simp add: iconRecord_def)
next
  case Skip
  then show ?thesis using decideIcon_NoStatus [of p] by (simp add: iconRecord_def)
next
  case (Update v)
  then show ?thesis
    using decideIcon_NoStatus [of p]
    by (cases "update_icon (db st) (page_id p) v") (simp_all add: iconRecord_def Let_def)
qed

lemma iconBatch_counts:
  "totalUpdated (iconBatch ps st) + totalSkipped (iconBatch ps st) +
     length (filter (\<lambda>p. no_value (status_name p)) ps)
   \<le> totalUpdated st + totalSkipped st + length ps"
proof (induction ps arbitrary: st)
  case Nil
  show ?case by simp
next
  case (Cons p ps)
  show ?case
    using Cons [of "iconRecord p st"] iconRecord_counts [of p st]
    by (simp split: if_splits)
qed

text \<open>
  Claim C10. A page without a status is passed over with one console line: no request is
  sent, the database is as before and neither counter moves. So after a batch the two
  counters together have grown by at most the number of pages that have a status, fewer
  than the pages processed as soon as one has none.
\<close>

theorem no_status_not_counted:
  "(no_value (status_name p) \<longrightarrow>
      iconRecord p st =
        emit (Log ''Skipping book - no status found'' (unknown_title (title_text p))) st \<and>
      db (iconRecord p st) = db st \<and>
      totalUpdated (iconRecord p st) = totalUpdated st \<and>
      totalSkipped (iconRecord p st) = totalSkipped st) \<and>
   totalUpdated (iconBatch ps st) + totalSkipped (iconBatch ps st) +
     length (filter (\<lambda>p. no_value (status_name p)) ps)
   \<le> totalUpdated st + totalSkipped st + length ps"
  using iconBatch_counts [of ps st] by (simp add: iconRecord_def decideIcon_def)

theorem no_status_not_counted_witness:
  "no_value (status_name no_status_page) \<and>
   trace (iconRecord no_status_page (start_state two_pages)) =
     [Log ''Skipping book - no status found'' ''Ulysses''] \<and>
   totalUpdated (iconBatch [no_status_page] (start_state two_pages)) +
     totalSkipped (iconBatch [no_status_page] (start_state two_pages)) < length [no_status_page]"
proof -
  have h: "no_value (status_name no_status_page)"
    by (simp add: no_status_page_def no_value_def)
  have t: "unknown_title (title_text no_status_page) = ''Ulysses''"
    by (simp add: no_status_page_def unknown_title_def no_value_def)
  show ?thesis
    using no_status_not_counted [of no_status_page "start_state two_pages" "[no_status_page]"] h t
    by (simp add: start_state_def)
qed

section \<open>Failed updates, the force flag and the pauses\<close>

lemma book1_title: "unknown_title (title_text book1) = ''Dune''"
  by (simp add: book1_def unknown_title_def no_value_def)

text \<open>
  Claim C5, as stated, fails in the icon script: it has no counter for failures. On a
  database of one page whose update the service refuses, the exception is caught and
  logged, the pause follows and the run ends normally, with both counters at zero.
\<close>

theorem icon_failure_not_counted:
  "updateBookIcons 1 (one_page [book1] True) =
     Some \<lparr>trace = [Query None, Log ''Processing batch of books'' [],
                     UpdateIcon ''p1'' (Glyph blue_book), LogError ''Error updating icon'' ''Dune'',
                     Sleep 250, Log ''Batch complete. No more pages'' [],
                     Log ''Icon update complete'' []],
            db = one_page [book1] True, totalUpdated = 0, totalSkipped = 0\<rparr>"
  by (simp add: updateBookIcons_def one_page_def Let_def iconRecord_def decideIcon_def
      expectedEmoji_def EMOJIS_get_def EMOJIS_def book1_def no_value_def currentEmoji_def
      same_emoji_def update_icon_def emit_def unknown_title_def blue_book_def)

lemma one_page_simps:
  "query (one_page ps refuse) None = Some \<lparr>results = ps, has_more = False, next_cursor = None\<rparr>"
  "rejects (one_page ps refuse) pid = refuse"
  by (simp_all add: one_page_def)

text \<open>
  Claim C7, as stated, fails when the update request itself throws: with the force flag,
  a page that has an identifier and 100 pages, and a lookup that finds 200 pages, the
  service refusing the update leaves the force counter at zero and counts a failure. It
  also fails for a stored page count of 0, which the code tests as no page count: the
  update is accepted and the page is counted as updated, not as force updated.
\<close>

theorem force_update_refused:
  "updateBookTotalPages 1 pages_200 True (one_page [book2] True) =
     Some \<lparr>trace = [Log ''Starting to update book total pages'' [], Log ''FORCE MODE ENABLED'' [],
                     Query None, Log ''Processing batch of books'' [],
                     Log ''Force updating'' ''Emma'',
                     Log ''Fetching data'' ''Emma'', Lookup ''9780141439587'',
                     UpdatePages ''p4'' (JNum 200), LogError ''Error processing'' ''Emma'',
                     Sleep 500,
                     Log ''Batch complete. No more pages'' [], Log ''Summary'' []],
            db = one_page [book2] True, totalUpdated = 0, totalSkipped = 0,
            totalMissingISBN = 0, totalFailedFetch = 1, totalForceUpdated = 0\<rparr> \<and>
   updateBookTotalPages 1 pages_200 True (one_page [book0] False) =
     Some \<lparr>trace = [Log ''Starting to update book total pages'' [], Log ''FORCE MODE ENABLED'' [],
                     Query None, Log ''Processing batch of books'' [],
                     Log ''Fetching data'' ''Emma'', Lookup ''9780141439587'',
                     UpdatePages ''p6'' (JNum 200), Log ''Updated'' ''Emma'', Sleep 500,
                     Log ''Batch complete. No more pages'' [], Log ''Summary'' []],
            db = set_pages ''p6'' 200 (one_page [book0] False), totalUpdated = 1,
            totalSkipped = 0, totalMissingISBN = 0, totalFailedFetch = 0,
            totalForceUpdated = 0\<rparr>"
  by (simp add: updateBookTotalPages_def pages_start_def one_page_simps Let_def pagesRecord_def
      book2_def book0_def no_value_def no_number_def emit_def unknown_title_def failedFetch_def
      fetchBookDataFromOpenLibrary_def pages_200_def update_pages_def)

lemma lookups_append: "lookups (xs @ ys) = lookups xs @ lookups ys"
  by (induction xs rule: lookups.induct) simp_all

lemma iconRecord_update_throws:
  "decideIcon p = Update v \<Longrightarrow> update_icon (db st) (page_id p) v = None \<Longrightarrow>
   iconRecord p st =
     emit (Sleep 250)
       (emit (LogError ''Error updating icon'' (unknown_title (title_text p)))
          (emit (UpdateIcon (page_id p) v) st))"
  by (simp add: iconRecord_def Let_def)

lemma before_lookup_simps [simp]:
  "db (before_lookup force p st) = db st"
  "totalUpdated (before_lookup force p st) = totalUpdated st"
  "totalSkipped (before_lookup force p st) = totalSkipped st"
  "totalMissingISBN (before_lookup force p st) = totalMissingISBN st"
  "totalFailedFetch (before_lookup force p st) = totalFailedFetch st"
  "totalForceUpdated (before_lookup force p st) = totalForceUpdated st"
  "lookups (trace (before_lookup force p st)) = lookups (trace st) @ [the (isbn_text p)]"
  by (simp_all add: before_lookup_def lookups_append)

lemma pagesRecord_unfold:
  assumes "\<not> no_value (isbn_text p)" "no_number (total_pages p) \<or> force"
  shows "pagesRecord ol force p st =
     (let t = unknown_title (title_text p); st2 = before_lookup force p st
      in case fetchBookDataFromOpenLibrary ol (the (isbn_text p)) of
           Inl e \<Rightarrow> emit (Sleep 500) (failedFetch (emit (LogError ''Error processing'' t) st2))
         | Inr bookData \<Rightarrow>
             if \<not> truthy (Some bookData) then
               failedFetch (emit (Log ''No OpenLibrary data found'' t) st2)
             else
               (case get_prop (Some bookData) ''number_of_pages'' of
                  Inl e \<Rightarrow>
                    emit (Sleep 500) (failedFetch (emit (LogError ''Error processing'' t) st2))
                | Inr nPages \<Rightarrow>
                    if \<not> truthy nPages then
                      failedFetch (emit (Log ''No page count information available'' t) st2)
                    else
                      (let st3 = emit (UpdatePages (page_id p) (the nPages)) st2
                       in case update_pages (db st) (page_id p) (the nPages) of
                            None \<Rightarrow>
                              emit (Sleep 500)
                                (failedFetch (emit (LogError ''Error processing'' t) st3))
                          | Some db' \<Rightarrow>
                              emit (Sleep 500)
                                (if \<not> no_number (total_pages p) \<and> force then
                                   (emit (Log ''Force updated'' t) st3)
                                     \<lparr>db := db',
                                      totalForceUpdated := Suc (totalForceUpdated st)\<rparr>
                                 else
                                   (emit (Log ''Updated'' t) st3)
                                     \<lparr>db := db',
                                      totalUpdated := Suc (totalUpdated st)\<rparr>))))"
proof -
  have c: "\<not> (\<not> no_number (total_pages p) \<and> \<not> force)"
    using assms(2) by blast
  show ?thesis
    unfolding pagesRecord_def before_lookup_def Let_def
    by (simp only: assms(1) c if_False)
qed

lemma query_map_pages:
  "query (map_pages f d) c = map_option (\<lambda>r. r\<lparr>results := map f (results r)\<rparr>) (query d c)"
  by (simp add: map_pages_def)

lemma rejects_map_pages: "rejects (map_pages f d) = rejects d"
  by (simp add: map_pages_def)

lemma set_pages_sets:
  assumes "query (set_pages pid n d) c = Some r" "q \<in> set (results r)" "page_id q = pid"
  shows "total_pages q = Some n"
proof -
  let ?f = "\<lambda>p. if page_id p = pid then p\<lparr>total_pages := Some n\<rparr> else p"
  obtain r0 where r0: "query d c = Some r0" "r = r0\<lparr>results := map ?f (results r0)\<rparr>"
    using assms(1) unfolding set_pages_def query_map_pages by (cases "query d c") auto
  then obtain q0 where q0: "q0 \<in> set (results r0)" "q = ?f q0"
    using assms(2) by auto
  have "page_id (?f q0) = page_id q0"
    by simp
  then have "page_id q0 = pid"
    using assms(3) q0(2) by simp
  then show ?thesis
    using q0(2) by simp
qed

lemma pagesRecord_looks_up:
  assumes "\<not> no_value (isbn_text p)" "no_number (total_pages p) \<or> force"
  shows "lookups (trace (pagesRecord ol force p st)) = lookups (trace st) @ [the (isbn_text p)]"
    and "totalSkipped (pagesRecord ol force p st) = totalSkipped st"
  unfolding pagesRecord_unfold [OF assms] Let_def
  by (simp_all add: lookups_append split: sum.splits option.splits)

lemma pagesRecord_fetched:
  assumes "\<not> no_value (isbn_text p)" "no_number (total_pages p) \<or> force"
    and "fetch_succeeds ol p v"
  shows "pagesRecord ol force p st =
     (let st3 = emit (UpdatePages (page_id p) v) (before_lookup force p st)
      in case update_pages (db st) (page_id p) v of
           None \<Rightarrow>
             emit (Sleep 500)
               (failedFetch (emit (LogError ''Error processing'' (unknown_title (title_text p))) st3))
         | Some db' \<Rightarrow>
             emit (Sleep 500)
               (if \<not> no_number (total_pages p) \<and> force then
                  (emit (Log ''Force updated'' (unknown_title (title_text p))) st3)
                    \<lparr>db := db', totalForceUpdated := Suc (totalForceUpdated st)\<rparr>
                else
                  (emit (Log ''Updated'' (unknown_title (title_text p))) st3)
                    \<lparr>db := db', totalUpdated := Suc (totalUpdated st)\<rparr>))"
proof -
  obtain b where b: "fetchBookDataFromOpenLibrary ol (the (isbn_text p)) = Inr b"
    "truthy (Some b)" "get_prop (Some b) ''number_of_pages'' = Inr (Some v)" "truthy (Some v)"
    using assms(3) by (auto simp add: fetch_succeeds_def split: sum.splits)
  show ?thesis
    unfolding pagesRecord_unfold [OF assms(1,2)] Let_def
    using b by (simp split: option.splits)
qed

lemma last_trace_chain_icon:
  "page_chain d None N \<Longrightarrow>
   \<exists>s. updateBookIcons N d = Some s \<and> length (queries (trace s)) = N \<and>
       last (trace s) = Log ''Icon update complete'' []"
  using iconLoop_chain [of "\<lparr>trace = [], db = d, totalUpdated = 0, totalSkipped = 0\<rparr>" None N N]
    length_chain_cursors [of d None N]
  by (auto simp add: updateBookIcons_def)

lemma last_trace_chain_pages:
  "page_chain d None N \<Longrightarrow>
   \<exists>s. updateBookTotalPages N ol force d = Some s \<and> length (queries (trace s)) = N \<and>
       last (trace s) = Log ''Summary'' []"
  using pagesLoop_chain [of "pages_start force d" None N N ol force]
    length_chain_cursors [of d None N]
  by (auto simp add: updateBookTotalPages_def pages_start_simps)

text \<open>
  Claim C5, amended. An exception of the update request of a page is caught and logged,
  the pause follows, and the loop goes on with the next page of the batch; the page-count
  script counts the page as failed, the icon script counts it in neither of its two
  counters. Whatever the service refuses, a run over \<open>N\<close> pages ends normally after
  \<open>N\<close> queries.
\<close>

theorem update_failure_caught:
  "(decideIcon p = Update v \<and> update_icon (db st) (page_id p) v = None \<longrightarrow>
      iconBatch (p # ps) st =
        iconBatch ps
          (emit (Sleep 250)
             (emit (LogError ''Error updating icon'' (unknown_title (title_text p)))
                (emit (UpdateIcon (page_id p) v) st)))) \<and>
   (\<not> no_value (isbn_text q) \<and> (no_number (total_pages q) \<or> force) \<and>
    fetch_succeeds ol q w \<and> update_pages (db pst) (page_id q) w = None \<longrightarrow>
      pagesBatch ol force (q # qs) pst =
        pagesBatch ol force qs
          (emit (Sleep 500)
             (failedFetch
                (emit (LogError ''Error processing'' (unknown_title (title_text q)))
                   (emit (UpdatePages (page_id q) w) (before_lookup force q pst)))))) \<and>
   (page_chain d None N \<longrightarrow>
      (\<exists>s. updateBookIcons N d = Some s \<and> length (queries (trace s)) = N \<and>
           last (trace s) = Log ''Icon update complete'' []) \<and>
      (\<exists>s. updateBookTotalPages N ol force d = Some s \<and> length (queries (trace s)) = N \<and>
           last (trace s) = Log ''Summary'' []))"
proof -
  have a: "iconBatch (p # ps) st =
        iconBatch ps
          (emit (Sleep 250)
             (emit (LogError ''Error updating icon'' (unknown_title (title_text p)))
                (emit (UpdateIcon (page_id p) v) st)))"
    if "decideIcon p = Update v" "update_icon (db st) (page_id p) v = None"
    using iconRecord_update_throws [OF that] by simp
  have b: "pagesBatch ol force (q # qs) pst =
        pagesBatch ol force qs
          (emit (Sleep 500)
             (failedFetch
                (emit (LogError ''Error processing'' (unknown_title (title_text q)))
                   (emit (UpdatePages (page_id q) w) (before_lookup force q pst)))))"
    if "\<not> no_value (isbn_text q)" "no_number (total_pages q) \<or> force"
      "fetch_succeeds ol q w" "update_pages (db pst) (page_id q) w = None"
    using pagesRecord_fetched [OF that(1,2,3), of pst] that(4) by (simp add: Let_def)
  show ?thesis
    using a b last_trace_chain_icon [of d N] last_trace_chain_pages [of d N ol force] by blast
qed

text \<open>
  Claim C7, amended. With the force flag, for a page that has a non-empty identifier and
  a page count other than 0: the lookup is always sent and the page is never counted as
  skipped; when the lookup finds a page count the update request is sent, and when the
  service accepts it every entry of the page holds the new count and the page is
  counted as force updated (not as updated); when the request throws the page is counted
  as failed.
\<close>

theorem force_refetches:
  assumes "\<not> no_value (isbn_text p)" "\<not> no_number (total_pages p)"
  shows "lookups (trace (pagesRecord ol True p st)) = lookups (trace st) @ [the (isbn_text p)] \<and>
         totalSkipped (pagesRecord ol True p st) = totalSkipped st \<and>
         (fetch_succeeds ol p v \<longrightarrow>
            UpdatePages (page_id p) v \<in> set (trace (pagesRecord ol True p st)) \<and>
            (case update_pages (db st) (page_id p) v of
               Some d' \<Rightarrow>
                 db (pagesRecord ol True p st) = d' \<and>
                 totalForceUpdated (pagesRecord ol True p st) = Suc (totalForceUpdated st) \<and>
                 totalUpdated (pagesRecord ol True p st) = totalUpdated st \<and>
                 totalFailedFetch (pagesRecord ol True p st) = totalFailedFetch st
             | None \<Rightarrow>
                 db (pagesRecord ol True p st) = db st \<and>
                 totalForceUpdated (pagesRecord ol True p st) = totalForceUpdated st \<and>
                 totalUpdated (pagesRecord ol True p st) = totalUpdated st \<and>
                 totalFailedFetch (pagesRecord ol True p st) = Suc (totalFailedFetch st))) \<and>
         (fetch_succeeds ol p (JNum n) \<and> \<not> rejects (db st) (page_id p) \<longrightarrow>
            db (pagesRecord ol True p st) = set_pages (page_id p) n (db st) \<and>
            (\<forall>c r q. query (db (pagesRecord ol True p st)) c = Some r \<and> q \<in> set (results r) \<and>
                     page_id q = page_id p \<longrightarrow> total_pages q = Some n))"
proof -
  have f: "no_number (total_pages p) \<or> True"
    by simp
  have a: "lookups (trace (pagesRecord ol True p st)) = lookups (trace st) @ [the (isbn_text p)]"
    and b: "totalSkipped (pagesRecord ol True p st) = totalSkipped st"
    using pagesRecord_looks_up [OF assms(1) f] by simp_all
  have c: "UpdatePages (page_id p) v \<in> set (trace (pagesRecord ol True p st)) \<and>
            (case update_pages (db st) (page_id p) v of
               Some d' \<Rightarrow>
                 db (pagesRecord ol True p st) = d' \<and>
                 totalForceUpdated (pagesRecord ol True p st) = Suc (totalForceUpdated st) \<and>
                 totalUpdated (pagesRecord ol True p st) = totalUpdated st \<and>
                 totalFailedFetch (pagesRecord ol True p st) = totalFailedFetch st
             | None \<Rightarrow>
                 db (pagesRecord ol True p st) = db st \<and>
                 totalForceUpdated (pagesRecord ol True p st) = totalForceUpdated st \<and>
                 totalUpdated (pagesRecord ol True p st) = totalUpdated st \<and>
                 totalFailedFetch (pagesRecord ol True p st) = Suc (totalFailedFetch st))"
    if "fetch_succeeds ol p v"
    unfolding pagesRecord_fetched [OF assms(1) f that] Let_def
    using assms(2) by (simp split: option.splits)
  have d: "db (pagesRecord ol True p st) = set_pages (page_id p) n (db st) \<and>
            (\<forall>c r q. query (db (pagesRecord ol True p st)) c = Some r \<and> q \<in> set (results r) \<and>
                     page_id q = page_id p \<longrightarrow> total_pages q = Some n)"
    if "fetch_succeeds ol p (JNum n)" "\<not> rejects (db st) (page_id p)"
  proof -
    have "update_pages (db st) (page_id p) (JNum n) = Some (set_pages (page_id p) n (db st))"
      using that(2) by (simp add: update_pages_def)
    then have "db (pagesRecord ol True p st) = set_pages (page_id p) n (db st)"
      unfolding pagesRecord_fetched [OF assms(1) f that(1)] Let_def
      using assms(2) by simp
    then show ?thesis
      using set_pages_sets [of "page_id p" n "db st"] by auto
  qed
  show ?thesis
    using a b c d by blast
qed

text \<open>
  Claim C6 asks for a pause after every lookup, before the next page is processed. The
  page-count script misses it where the lookup finds no entry (and where the entry has
  no page count): the \<^verbatim>\<open>continue\<close> inside the \<^verbatim>\<open>try\<close> skips the pause. With two
  pages and a service that knows neither identifier, the two lookups follow each other
  with no pause in the whole run.
\<close>

theorem lookup_without_pause:
  "updateBookTotalPages 1 no_entry False (one_page [book1, book3] False) =
     Some \<lparr>trace = [Log ''Starting to update book total pages'' [], Query None,
                     Log ''Processing batch of books'' [],
                     Log ''Fetching data'' ''Dune'', Lookup ''9780441013593'',
                     Log ''No OpenLibrary data found'' ''Dune'',
                     Log ''Fetching data'' ''Emma'', Lookup ''9780141439587'',
                     Log ''No OpenLibrary data found'' ''Emma'',
                     Log ''Batch complete. No more pages'' [], Log ''Summary'' []],
            db = one_page [book1, book3] False, totalUpdated = 0, totalSkipped = 0,
            totalMissingISBN = 0, totalFailedFetch = 2, totalForceUpdated = 0\<rparr>"
  by (simp add: updateBookTotalPages_def pages_start_def one_page_def Let_def pagesRecord_def
      book1_def book3_def no_value_def no_number_def emit_def unknown_title_def failedFetch_def
      fetchBookDataFromOpenLibrary_def no_entry_def)

lemma book2_fetch: "fetch_succeeds pages_200 book2 (JNum 200)"
  by (simp add: fetch_succeeds_def fetchBookDataFromOpenLibrary_def pages_200_def book2_def)

theorem update_failure_caught_witness:
  "decideIcon book1 = Update (Glyph blue_book) \<and>
   update_icon (db (start_state (one_page [book1] True))) (page_id book1) (Glyph blue_book) = None \<and>
   totalUpdated (iconBatch [book1] (start_state (one_page [book1] True))) = 0 \<and>
   totalSkipped (iconBatch [book1] (start_state (one_page [book1] True))) = 0 \<and>
   \<not> no_value (isbn_text book2) \<and> fetch_succeeds pages_200 book2 (JNum 200) \<and>
   update_pages (db (pages_start True (one_page [book2] True))) (page_id book2) (JNum 200) = None \<and>
   totalFailedFetch (pagesBatch pages_200 True [book2] (pages_start True (one_page [book2] True))) = 1 \<and>
   page_chain two_pages None 2 \<and>
   (\<exists>s. updateBookIcons 2 two_pages = Some s \<and> length (queries (trace s)) = 2)"
proof -
  have h1: "decideIcon book1 = Update (Glyph blue_book)"
    by (simp add: decideIcon_def book1_def no_value_def expectedEmoji_def EMOJIS_get_def
        EMOJIS_def same_emoji_def currentEmoji_def blue_book_def)
  have h2: "update_icon (db (start_state (one_page [book1] True))) (page_id book1) (Glyph blue_book) = None"
    by (simp add: update_icon_def start_state_def one_page_def)
  have h3: "\<not> no_value (isbn_text book2)"
    by (simp add: book2_def no_value_def)
  have h4: "update_pages (db (pages_start True (one_page [book2] True))) (page_id book2) (JNum 200) = None"
    by (simp add: update_pages_def pages_start_simps one_page_def)
  note t = update_failure_caught [of book1 "Glyph blue_book" "start_state (one_page [book1] True)" "[]"
      book2 True pages_200 "JNum 200" "pages_start True (one_page [book2] True)" "[]" two_pages 2]
  have i: "iconBatch [book1] (start_state (one_page [book1] True)) =
        iconBatch []
          (emit (Sleep 250)
             (emit (LogError ''Error updating icon'' (unknown_title (title_text book1)))
                (emit (UpdateIcon (page_id book1) (Glyph blue_book))
                   (start_state (one_page [book1] True)))))"
    using t h1 h2 by blast
  have p: "pagesBatch pages_200 True [book2] (pages_start True (one_page [book2] True)) =
        pagesBatch pages_200 True []
          (emit (Sleep 500)
             (failedFetch
                (emit (LogError ''Error processing'' (unknown_title (title_text book2)))
                   (emit (UpdatePages (page_id book2) (JNum 200))
                      (before_lookup True book2 (pages_start True (one_page [book2] True)))))))"
    using t h3 h4 book2_fetch by blast
  have c: "\<exists>s. updateBookIcons 2 two_pages = Some s \<and> length (queries (trace s)) = 2"
    using t two_pages_chain by blast
  have i0: "totalUpdated (iconBatch [book1] (start_state (one_page [book1] True))) = 0"
      "totalSkipped (iconBatch [book1] (start_state (one_page [book1] True))) = 0"
    unfolding i by (simp_all add: start_state_def)
  have p1: "totalFailedFetch (pagesBatch pages_200 True [book2] (pages_start True (one_page [book2] True))) = 1"
    unfolding p by (simp add: pages_start_def Let_def emit_def)
  show ?thesis
    using h1 h2 h3 h4 book2_fetch two_pages_chain c i0 p1 by blast
qed

theorem force_refetches_witness:
  "\<not> no_value (isbn_text book2) \<and> \<not> no_number (total_pages book2) \<and>
   fetch_succeeds pages_200 book2 (JNum 200) \<and>
   \<not> rejects (db (pages_start True (one_page [book2] False))) (page_id book2) \<and>
   lookups (trace (pagesRecord pages_200 True book2 (pages_start True (one_page [book2] False)))) =
     [''9780141439587''] \<and>
   totalSkipped (pagesRecord pages_200 True book2 (pages_start True (one_page [book2] False))) = 0 \<and>
   totalForceUpdated (pagesRecord pages_200 True book2 (pages_start True (one_page [book2] False))) = 1 \<and>
   db (pagesRecord pages_200 True book2 (pages_start True (one_page [book2] False))) =
     set_pages ''p4'' 200 (one_page [book2] False)"
proof -
  let ?st = "pages_start True (one_page [book2] False)"
  have h1: "\<not> no_value (isbn_text book2)" and h2: "\<not> no_number (total_pages book2)"
    by (simp_all add: book2_def no_value_def no_number_def)
  have h3: "\<not> rejects (db ?st) (page_id book2)"
    by (simp add: pages_start_simps one_page_def)
  have u: "update_pages (db ?st) (page_id book2) (JNum 200) = Some (set_pages ''p4'' 200 (one_page [book2] False))"
    by (simp add: update_pages_def pages_start_simps one_page_def book2_def)
  have s: "lookups (trace ?st) = []" "totalSkipped ?st = 0" "totalForceUpdated ?st = 0"
    "the (isbn_text book2) = ''9780141439587''" "page_id book2 = ''p4''" "db ?st = one_page [book2] False"
    by (simp_all add: pages_start_def Let_def emit_def book2_def)
  show ?thesis
    using force_refetches [OF h1 h2, of pages_200 ?st "JNum 200" 200] h1 h2 h3 book2_fetch u s
    by simp
qed

section \<open>Properties of the import script\<close>

lemma failedIsbns_emit [simp]: "failedIsbns (emit e st) = failedIsbns st"
  by (simp add: emit_def)

lemma fetchBookInfo_fails:
  "lookup_fails ol i \<Longrightarrow>
   fetchBookInfo ol i st =
     (None, (emit (LogError ''Error fetching data for ISBN'' i) (emit (Lookup i) st))
              \<lparr>failedIsbns := failedIsbns st @ [i]\<rparr>)"
  by (simp add: fetchBookInfo_def lookup_fails_def Let_def split: sum.splits)

lemma fetchBookInfo_finds:
  "\<not> lookup_fails ol i \<Longrightarrow> \<exists>b. fetchBookInfo ol i st = (Some b, emit (Lookup i) st)"
  by (simp add: fetchBookInfo_def lookup_fails_def Let_def split: sum.splits)

lemma fetchBookInfo_lookups:
  "lookups (trace (snd (fetchBookInfo ol i st))) = lookups (trace st) @ [i]"
  by (simp add: fetchBookInfo_def Let_def lookups_append split: sum.splits)

lemma fetchBookInfo_None: "(fst (fetchBookInfo ol i st) = None) = lookup_fails ol i"
  by (simp add: fetchBookInfo_def lookup_fails_def Let_def split: sum.splits)

lemma fetchBookInfo_failed:
  "failedIsbns (snd (fetchBookInfo ol i st)) =
     failedIsbns st @ (if lookup_fails ol i then [i] else [])"
  by (simp add: fetchBookInfo_def lookup_fails_def Let_def split: sum.splits)

lemma addBookToNotion_simps [simp]:
  "lookups (trace (addBookToNotion accepts b st)) = lookups (trace st)"
  "failedIsbns (addBookToNotion accepts b st) = failedIsbns st"
  by (simp_all add: addBookToNotion_def Let_def lookups_append)

lemma importBook_unfold:
  "importBook ol accepts book acc =
     (case fst (second_try ol book (snd acc)) of
        Some bookInfo \<Rightarrow>
          (fst acc @ [bookInfo],
           emit (Sleep 1000)
             (addBookToNotion accepts bookInfo
                (emit (Log ''Found'' (isbn bookInfo)) (snd (second_try ol book (snd acc))))))
      | None \<Rightarrow>
          (let st3 = emit (Log ''No data found for book'' (row_title book))
                       (snd (second_try ol book (snd acc)));
               st4 = (if \<not> no_value (row_isbn13 book)
                      then st3\<lparr>failedIsbns := failedIsbns st3 @ [the (row_isbn13 book)]\<rparr>
                      else if \<not> no_value (row_isbn book)
                      then st3\<lparr>failedIsbns := failedIsbns st3 @ [the (row_isbn book)]\<rparr>
                      else st3)
           in (fst acc, emit (Sleep 1000) st4)))"
  unfolding importBook_def second_try_def first_try_def cleaned_def Let_def ..

lemma first_try_lookups:
  "lookups (trace (snd (first_try ol book st))) =
     lookups (trace st) @
       (if no_value (row_isbn13 book) then [] else [cleaned (the (row_isbn13 book))])"
  by (simp add: first_try_def fetchBookInfo_lookups lookups_append)

lemma first_try_None:
  "(fst (first_try ol book st) = None) =
     (no_value (row_isbn13 book) \<or> lookup_fails ol (cleaned (the (row_isbn13 book))))"
  by (simp add: first_try_def fetchBookInfo_None)

lemma first_try_failed:
  "failedIsbns (snd (first_try ol book st)) =
     failedIsbns st @
       (if \<not> no_value (row_isbn13 book) \<and> lookup_fails ol (cleaned (the (row_isbn13 book)))
        then [cleaned (the (row_isbn13 book))] else [])"
  by (simp add: first_try_def fetchBookInfo_failed)

lemma second_try_lookups:
  "lookups (trace (snd (second_try ol book st))) = lookups (trace st) @ spec_attempts ol book"
  by (simp add: second_try_def first_try_None first_try_lookups fetchBookInfo_lookups
      lookups_append spec_attempts_def)

lemma second_try_None:
  "(fst (second_try ol book st) = None) = (\<forall>i \<in> set (spec_attempts ol book). lookup_fails ol i)"
  by (auto simp add: second_try_def first_try_None fetchBookInfo_None spec_attempts_def)

lemma second_try_failed:
  "failedIsbns (snd (second_try ol book st)) =
     failedIsbns st @ filter (lookup_fails ol) (spec_attempts ol book)"
  by (simp add: second_try_def first_try_None first_try_failed fetchBookInfo_failed
      spec_attempts_def)

lemma importBook_lookups:
  "lookups (trace (snd (importBook ol accepts book acc))) =
     lookups (trace (snd acc)) @ spec_attempts ol book"
  unfolding importBook_unfold Let_def
  by (simp add: second_try_lookups lookups_append split: option.splits)

lemma offline_fails: "lookup_fails offline i"
  by (simp add: lookup_fails_def fetchBookInfo_try_def offline_def)

lemma split_on_nonempty: "split_on d s \<noteq> []"
  by (induction s) (auto split: list.splits)

lemma column_value_nonempty: "column_value idx vs \<noteq> Some []"
  by (simp add: column_value_def Let_def split: option.splits)

lemma no_value_column: "no_value (column_value idx vs) = (column_value idx vs = None)"
  using column_value_nonempty [of idx vs] by (auto simp add: no_value_def)

lemma importBook_failed:
  "failedIsbns (snd (importBook ol accepts book acc)) =
     failedIsbns (snd acc) @ spec_failures ol book"
proof (cases "fst (second_try ol book (snd acc))")
  case None
  then have a: "list_all (lookup_fails ol) (spec_attempts ol book)"
    by (simp add: second_try_None list_all_iff)
  then have f: "filter (lookup_fails ol) (spec_attempts ol book) = spec_attempts ol book"
    by (simp add: list_all_iff)
  show ?thesis
    unfolding importBook_unfold Let_def
    using None a f by (simp add: second_try_failed spec_failures_def raw_id_def)
next
  case (Some b)
  then have a: "\<not> list_all (lookup_fails ol) (spec_attempts ol book)"
    using second_try_None [of ol book "snd acc"] by (simp add: list_all_iff)
  show ?thesis
    unfolding importBook_unfold Let_def
    using Some a by (simp add: second_try_failed spec_failures_def)
qed

lemma importBooks_lookups:
  "lookups (trace (snd (importBooks ol accepts rows acc))) =
     lookups (trace (snd acc)) @ concat (map (spec_attempts ol) rows)"
  by (induction rows arbitrary: acc) (simp_all add: importBook_lookups)

lemma importBooks_failed:
  "failedIsbns (snd (importBooks ol accepts rows acc)) =
     failedIsbns (snd acc) @ concat (map (spec_failures ol) rows)"
  by (induction rows arbitrary: acc) (simp_all add: importBook_failed)

lemma collectRow_row:
  "collectRow (indexOf hs ''ISBN'') (indexOf hs ''ISBN13'') (indexOf hs ''Title'') line acc =
     (if trim line = [] then acc
      else if cell_value hs ''ISBN13'' line = None \<and> cell_value hs ''ISBN'' line = None
      then (fst acc, emit (Log ''Skipping book - no ISBN/ISBN13 found''
                             (row_title (spec_row hs line))) (snd acc))
      else (fst acc @ [spec_row hs line], snd acc))"
  by (simp add: collectRow_def Let_def spec_row_def cell_value_def no_value_column)

lemma collectRows_rows_eq:
  "fst (collectRows (indexOf hs ''ISBN'') (indexOf hs ''ISBN13'') (indexOf hs ''Title'') lines acc) =
     fst acc @ map (spec_row hs)
       (filter (\<lambda>line. trim line \<noteq> [] \<and>
                  \<not> (cell_value hs ''ISBN13'' line = None \<and> cell_value hs ''ISBN'' line = None))
          lines)"
  by (induction lines arbitrary: acc) (simp_all add: collectRow_row)

lemma collectRows_quiet:
  "lookups (trace (snd (collectRows i10 i13 it lines acc))) = lookups (trace (snd acc)) \<and>
   failedIsbns (snd (collectRows i10 i13 it lines acc)) = failedIsbns (snd acc)"
proof (induction lines arbitrary: acc)
  case Nil
  show ?case by simp
next
  case (Cons line lines)
  have "lookups (trace (snd (collectRow i10 i13 it line acc))) = lookups (trace (snd acc)) \<and>
        failedIsbns (snd (collectRow i10 i13 it line acc)) = failedIsbns (snd acc)"
    by (simp add: collectRow_def Let_def lookups_append)
  then show ?case
    using Cons [of "collectRow i10 i13 it line acc"] by simp
qed

lemma spec_attempts_cells:
  "spec_attempts ol (spec_row hs line) =
     (case cell_value hs ''ISBN13'' line of
        None \<Rightarrow> (case cell_value hs ''ISBN'' line of None \<Rightarrow> [] | Some b \<Rightarrow> [cleaned b])
      | Some a \<Rightarrow>
          cleaned a #
            (if lookup_fails ol (cleaned a)
             then (case cell_value hs ''ISBN'' line of None \<Rightarrow> [] | Some b \<Rightarrow> [cleaned b])
             else []))"
  by (auto simp add: spec_attempts_def spec_row_def cell_value_def no_value_column
      split: option.splits)

lemma no_cells_nothing:
  assumes "cell_value hs ''ISBN13'' line = None" "cell_value hs ''ISBN'' line = None"
  shows "spec_attempts ol (spec_row hs line) = []" "spec_failures ol (spec_row hs line) = []"
  using assms
  by (simp_all add: spec_failures_def raw_id_def spec_attempts_cells)
     (simp_all add: spec_row_def no_value_def)

lemma concat_map_filter_nil:
  "(\<And>x. \<not> P x \<Longrightarrow> f x = []) \<Longrightarrow> concat (map f (filter P xs)) = concat (map f xs)"
  by (induction xs) simp_all

lemma saveFailedIsbns_simps:
  "lookups (trace (saveFailedIsbns st)) = lookups (trace st)"
  "failedIsbns (saveFailedIsbns st) = failedIsbns st"
  "failedIsbns st \<noteq> [] \<Longrightarrow> WriteFile (failedIsbns st) \<in> set (trace (saveFailedIsbns st))"
  by (simp_all add: saveFailedIsbns_def lookups_append)

lemma processGoodreadsCSV_unfold:
  assumes "indexOf (header_of content) ''ISBN'' \<noteq> None \<or>
           indexOf (header_of content) ''ISBN13'' \<noteq> None"
  shows "processGoodreadsCSV ol accepts (Some content) st =
     saveFailedIsbns
       (emit (Log ''Processing complete'' [])
          (snd (importBooks ol accepts
                  (fst (collectRows (indexOf (header_of content) ''ISBN'')
                          (indexOf (header_of content) ''ISBN13'')
                          (indexOf (header_of content) ''Title'')
                          (tl (split_on newline content))
                          ([], emit (Log ''Processing Goodreads export file'' []) st)))
                  ([], emit (Log ''Found books with ISBNs'' [])
                         (snd (collectRows (indexOf (header_of content) ''ISBN'')
                                 (indexOf (header_of content) ''ISBN13'')
                                 (indexOf (header_of content) ''Title'')
                                 (tl (split_on newline content))
                                 ([], emit (Log ''Processing Goodreads export file'' []) st)))))))"
proof -
  obtain h t where ht: "split_on newline content = h # t"
    using split_on_nonempty [of newline content] by (cases "split_on newline content") auto
  have "\<not> (indexOf (parseCSVLine h) ''ISBN'' = None \<and> indexOf (parseCSVLine h) ''ISBN13'' = None)"
    using assms ht by (simp add: header_of_def)
  then show ?thesis
    by (auto simp add: processGoodreadsCSV_def ht header_of_def Let_def)
qed

lemma saveFailedIsbns_writes:
  "failedIsbns (saveFailedIsbns st) \<noteq> [] \<Longrightarrow>
   WriteFile (failedIsbns (saveFailedIsbns st)) \<in> set (trace (saveFailedIsbns st))"
  by (cases "failedIsbns st = []") (simp_all add: saveFailedIsbns_def)

text \<open>
  Claim C4. In the Goodreads mode the lookups of the whole run are those of the data
  lines of the export, in order, and for a data line they are: the value in the column
  named \<^verbatim>\<open>ISBN13\<close> first, when the line has one; then the value in the column named
  \<^verbatim>\<open>ISBN\<close>, when the line has one and the ISBN13 lookup failed or there was no
  ISBN13 value. The column named \<^verbatim>\<open>ISBN13\<close> is the first field of the header line
  equal to that name, and the value of a line in it is the field of the line at that
  place, without \<^verbatim>\<open>=\<close> and quotes and trimmed, when that leaves something. A data
  line with neither value is looked up for nothing and adds nothing to the failure log. The failure log of the run (written to the file when the header
  has one of the two columns and the log is not empty) grows line by line; a line all of
  whose lookups fail adds the identifiers looked up, the last one attempted among them,
  and then the identifier of the row as the export wrote it.
\<close>

theorem goodreads_isbn13_first:
  "lookups (trace (processGoodreadsCSV ol accepts (Some content) st)) =
           lookups (trace st) @
             concat (map (\<lambda>line. spec_attempts ol (spec_row (header_of content) line))
                       (data_rows content)) \<and>
         failedIsbns (processGoodreadsCSV ol accepts (Some content) st) =
           failedIsbns st @
             concat (map (\<lambda>line. spec_failures ol (spec_row (header_of content) line))
                       (data_rows content)) \<and>
         ((indexOf (header_of content) ''ISBN'' \<noteq> None \<or>
           indexOf (header_of content) ''ISBN13'' \<noteq> None) \<and>
          failedIsbns (processGoodreadsCSV ol accepts (Some content) st) \<noteq> [] \<longrightarrow>
            WriteFile (failedIsbns (processGoodreadsCSV ol accepts (Some content) st))
              \<in> set (trace (processGoodreadsCSV ol accepts (Some content) st))) \<and>
         (\<forall>line.
            spec_attempts ol (spec_row (header_of content) line) =
              (case cell_value (header_of content) ''ISBN13'' line of
                 None \<Rightarrow>
                   (case cell_value (header_of content) ''ISBN'' line of
                      None \<Rightarrow> []
                    | Some b \<Rightarrow> [cleaned b])
               | Some a \<Rightarrow>
                   cleaned a #
                     (if lookup_fails ol (cleaned a)
                      then (case cell_value (header_of content) ''ISBN'' line of
                              None \<Rightarrow> []
                            | Some b \<Rightarrow> [cleaned b])
                      else []))) \<and>
         (\<forall>line. cell_value (header_of content) ''ISBN13'' line = None \<and>
                 cell_value (header_of content) ''ISBN'' line = None \<longrightarrow>
            spec_attempts ol (spec_row (header_of content) line) = [] \<and>
            spec_failures ol (spec_row (header_of content) line) = []) \<and>
         (\<forall>line. spec_attempts ol (spec_row (header_of content) line) \<noteq> [] \<and>
                 list_all (lookup_fails ol) (spec_attempts ol (spec_row (header_of content) line)) \<longrightarrow>
            spec_failures ol (spec_row (header_of content) line) =
              spec_attempts ol (spec_row (header_of content) line) @
                raw_id (spec_row (header_of content) line) \<and>
            last (spec_attempts ol (spec_row (header_of content) line))
              \<in> set (spec_failures ol (spec_row (header_of content) line)))"
proof -
  let ?hs = "header_of content"
  let ?has = "\<lambda>line. trim line \<noteq> [] \<and>
                  \<not> (cell_value ?hs ''ISBN13'' line = None \<and> cell_value ?hs ''ISBN'' line = None)"
  let ?r = "processGoodreadsCSV ol accepts (Some content) st"
  have rows: "concat (map f (map (spec_row ?hs) (filter ?has (tl (split_on newline content))))) =
      concat (map (\<lambda>line. f (spec_row ?hs line)) (data_rows content))"
    if "\<And>line. cell_value ?hs ''ISBN13'' line = None \<and> cell_value ?hs ''ISBN'' line = None \<Longrightarrow>
          f (spec_row ?hs line) = []" for f :: "book_row \<Rightarrow> string list"
  proof -
    let ?g = "\<lambda>line. f (spec_row ?hs line)"
    let ?p = "\<lambda>line. \<not> (cell_value ?hs ''ISBN13'' line = None \<and> cell_value ?hs ''ISBN'' line = None)"
    have "filter ?has (tl (split_on newline content)) = filter ?p (data_rows content)"
      by (simp add: data_rows_def conj_commute)
    moreover have "concat (map ?g (filter ?p (data_rows content))) = concat (map ?g (data_rows content))"
      using that by (intro concat_map_filter_nil) simp
    ultimately show ?thesis
      by (simp add: comp_def)
  qed
  have ab: "lookups (trace ?r) =
      lookups (trace st) @ concat (map (\<lambda>line. spec_attempts ol (spec_row ?hs line)) (data_rows content)) \<and>
    failedIsbns ?r =
      failedIsbns st @ concat (map (\<lambda>line. spec_failures ol (spec_row ?hs line)) (data_rows content))"
  proof (cases "indexOf ?hs ''ISBN'' \<noteq> None \<or> indexOf ?hs ''ISBN13'' \<noteq> None")
    case True
    have "lookups (trace ?r) =
        lookups (trace st) @ concat (map (\<lambda>line. spec_attempts ol (spec_row ?hs line)) (data_rows content))"
      unfolding processGoodreadsCSV_unfold [OF True]
      using rows [of "spec_attempts ol"] no_cells_nothing(1) [of ?hs _ ol]
      by (simp add: saveFailedIsbns_simps lookups_append importBooks_lookups collectRows_rows_eq
          collectRows_quiet)
    moreover have "failedIsbns ?r =
        failedIsbns st @ concat (map (\<lambda>line. spec_failures ol (spec_row ?hs line)) (data_rows content))"
      unfolding processGoodreadsCSV_unfold [OF True]
      using rows [of "spec_failures ol"] no_cells_nothing(2) [of ?hs _ ol]
      by (simp add: saveFailedIsbns_simps importBooks_failed collectRows_rows_eq collectRows_quiet)
    ultimately show ?thesis by simp
  next
    case False
    then have n: "indexOf ?hs ''ISBN'' = None" "indexOf ?hs ''ISBN13'' = None"
      by simp_all
    have c: "cell_value ?hs ''ISBN13'' line = None" "cell_value ?hs ''ISBN'' line = None" for line
      by (simp_all add: cell_value_def n column_value_def)
    have e: "spec_attempts ol (spec_row ?hs line) = []" "spec_failures ol (spec_row ?hs line) = []"
      for line
      using no_cells_nothing [OF c] by simp_all
    have r: "?r = emit (LogError ''Error: Could not find ISBN or ISBN13 columns'' []) st"
      using n split_on_nonempty [of newline content]
      by (cases "split_on newline content")
        (simp_all add: processGoodreadsCSV_def header_of_def Let_def)
    show ?thesis
      unfolding r by (simp add: e lookups_append)
  qed
  have c: "WriteFile (failedIsbns ?r) \<in> set (trace ?r)"
    if "indexOf ?hs ''ISBN'' \<noteq> None \<or> indexOf ?hs ''ISBN13'' \<noteq> None" "failedIsbns ?r \<noteq> []"
    using that(2) unfolding processGoodreadsCSV_unfold [OF that(1)]
    by (rule saveFailedIsbns_writes)
  have d: "spec_failures ol book = spec_attempts ol book @ raw_id book \<and>
           last (spec_attempts ol book) \<in> set (spec_failures ol book)"
    if "spec_attempts ol book \<noteq> []" "list_all (lookup_fails ol) (spec_attempts ol book)" for book
    using that by (simp add: spec_failures_def list_all_iff)
  show ?thesis
    using ab c d spec_attempts_cells [of ol ?hs] no_cells_nothing [of ?hs _ ol] by blast
qed

lemma goodreads_file_header: "header_of goodreads_file = [''Title'', ''ISBN'', ''ISBN13'']"
  by code_simp

lemma goodreads_file_rows: "data_rows goodreads_file = [emma_line, dune_line, nbsp_line]"
  by code_simp

lemma emma_line_attempts:
  "spec_attempts offline (spec_row [''Title'', ''ISBN'', ''ISBN13''] emma_line) =
     [''9780141439587'', ''0141439580'']"
  "spec_failures offline (spec_row [''Title'', ''ISBN'', ''ISBN13''] emma_line) =
     [''9780141439587'', ''0141439580'', ''978-0141439587'']"
  by code_simp+

lemma other_lines_cells:
  "cell_value [''Title'', ''ISBN'', ''ISBN13''] ''ISBN13'' dune_line = None"
  "cell_value [''Title'', ''ISBN'', ''ISBN13''] ''ISBN'' dune_line = None"
  "cell_value [''Title'', ''ISBN'', ''ISBN13''] ''ISBN13'' nbsp_line = None"
  "cell_value [''Title'', ''ISBN'', ''ISBN13''] ''ISBN'' nbsp_line = None"
  by code_simp+

lemma goodreads_file_run:
  "lookups (trace (processGoodreadsCSV offline (\<lambda>b. True) (Some goodreads_file) import_start)) =
     [''9780141439587'', ''0141439580'']"
  "failedIsbns (processGoodreadsCSV offline (\<lambda>b. True) (Some goodreads_file) import_start) =
     [''9780141439587'', ''0141439580'', ''978-0141439587'']"
  by code_simp+

lemma crlf_file_run:
  "indexOf (header_of crlf_file) ''ISBN'' = Some 1"
  "indexOf (header_of crlf_file) ''ISBN13'' = None"
  "data_rows crlf_file = [emma_line @ [CHR 0x0D]]"
  "cell_value (header_of crlf_file) ''ISBN13'' (emma_line @ [CHR 0x0D]) = None"
  "cell_value (header_of crlf_file) ''ISBN'' (emma_line @ [CHR 0x0D]) = Some ''0141439580''"
  "lookups (trace (processGoodreadsCSV offline (\<lambda>b. True) (Some crlf_file) import_start)) =
     [''0141439580'']"
  "failedIsbns (processGoodreadsCSV offline (\<lambda>b. True) (Some crlf_file) import_start) =
     [''0141439580'', ''0141439580'']"
  by code_simp+

theorem goodreads_isbn13_first_witness:
  "indexOf (header_of goodreads_file) ''ISBN'' = Some 1 \<and>
   indexOf (header_of goodreads_file) ''ISBN13'' = Some 2 \<and>
   data_rows goodreads_file = [emma_line, dune_line, nbsp_line] \<and>
   cell_value (header_of goodreads_file) ''ISBN13'' dune_line = None \<and>
   cell_value (header_of goodreads_file) ''ISBN'' dune_line = None \<and>
   spec_failures offline (spec_row (header_of goodreads_file) dune_line) = [] \<and>
   list_all (lookup_fails offline)
     (spec_attempts offline (spec_row (header_of goodreads_file) emma_line)) \<and>
   last (spec_attempts offline (spec_row (header_of goodreads_file) emma_line)) = ''0141439580'' \<and>
   ''0141439580'' \<in> set (spec_failures offline (spec_row (header_of goodreads_file) emma_line)) \<and>
   lookups (trace (processGoodreadsCSV offline (\<lambda>b. True) (Some goodreads_file) import_start)) =
     [''9780141439587'', ''0141439580''] \<and>
   failedIsbns (processGoodreadsCSV offline (\<lambda>b. True) (Some goodreads_file) import_start) =
     [''9780141439587'', ''0141439580'', ''978-0141439587''] \<and>
   WriteFile [''9780141439587'', ''0141439580'', ''978-0141439587'']
     \<in> set (trace (processGoodreadsCSV offline (\<lambda>b. True) (Some goodreads_file) import_start))"
proof -
  let ?hs = "[''Title'', ''ISBN'', ''ISBN13'']"
  let ?r = "processGoodreadsCSV offline (\<lambda>b. True) (Some goodreads_file) import_start"
  have i: "indexOf (header_of goodreads_file) ''ISBN'' = Some 1"
    "indexOf (header_of goodreads_file) ''ISBN13'' = Some 2"
    by (simp_all add: goodreads_file_header)
  note t = goodreads_isbn13_first [of offline "\<lambda>b. True" goodreads_file import_start]
  have n: "spec_attempts offline (spec_row ?hs dune_line) = []"
    "spec_failures offline (spec_row ?hs dune_line) = []"
    "spec_attempts offline (spec_row ?hs nbsp_line) = []"
    "spec_failures offline (spec_row ?hs nbsp_line) = []"
    using t other_lines_cells by (simp_all add: goodreads_file_header)
  have s: "lookups (trace import_start) = []" "failedIsbns import_start = []"
    by (simp_all add: import_start_def)
  have f: "list_all (lookup_fails offline) (spec_attempts offline (spec_row ?hs emma_line))"
    by (simp add: emma_line_attempts offline_fails)
  have l: "last (spec_attempts offline (spec_row ?hs emma_line)) = ''0141439580''"
    by (simp add: emma_line_attempts)
  have "spec_attempts offline (spec_row (header_of goodreads_file) emma_line) \<noteq> [] \<and>
      list_all (lookup_fails offline)
        (spec_attempts offline (spec_row (header_of goodreads_file) emma_line)) \<longrightarrow>
      last (spec_attempts offline (spec_row (header_of goodreads_file) emma_line))
        \<in> set (spec_failures offline (spec_row (header_of goodreads_file) emma_line))"
    using t by blast
  then have m: "last (spec_attempts offline (spec_row ?hs emma_line))
      \<in> set (spec_failures offline (spec_row ?hs emma_line))"
    using f unfolding goodreads_file_header by (simp add: emma_line_attempts)
  have a: "lookups (trace ?r) = [''9780141439587'', ''0141439580'']"
    and b: "failedIsbns ?r = [''9780141439587'', ''0141439580'', ''978-0141439587'']"
    using t n s emma_line_attempts by (simp_all add: goodreads_file_header goodreads_file_rows)
  have "(indexOf (header_of goodreads_file) ''ISBN'' \<noteq> None \<or>
       indexOf (header_of goodreads_file) ''ISBN13'' \<noteq> None) \<and> failedIsbns ?r \<noteq> [] \<longrightarrow>
      WriteFile (failedIsbns ?r) \<in> set (trace ?r)"
    using t by blast
  then have w: "WriteFile (failedIsbns ?r) \<in> set (trace ?r)"
    using i(1) b by simp
  show ?thesis
    using i n(2) f l m a b w other_lines_cells(1,2)
    by (simp add: goodreads_file_header goodreads_file_rows)
qed

text \<open>
  Claim C8. When the response has an entry for the identifier that is an object with a
  title (and its authors, if any, are an array of objects), \<^verbatim>\<open>fetchBookInfo\<close>
  returns a record with that title, the names of the authors and the page count, or
  \<^verbatim>\<open>null\<close> for a page count that is missing or falsy; without authors and without a
  page count the record has the empty list and \<^verbatim>\<open>null\<close>. When the request fails,
  the body is not JSON or the parsed body has no entry for the identifier (it is an
  object without that key, not an object at all, or \<^verbatim>\<open>null\<close>), it returns
  \<^verbatim>\<open>null\<close> and appends the identifier to \<^verbatim>\<open>failedIsbns\<close>, whatever the list
  already holds.
\<close>

theorem fetchBookInfo_outcomes:
  "(ol i = Body (JObj entries) \<and> map_of entries (''ISBN:'' @ i) = Some (JObj kvs) \<and>
    map_of kvs ''title'' = Some t \<and> authors_of (map_of kvs ''authors'') = Inr names \<longrightarrow>
      fetchBookInfo ol i st =
        (Some \<lparr>title = Some t, authors = names,
               numberOfPages = (if truthy (map_of kvs ''number_of_pages'')
                                then the (map_of kvs ''number_of_pages'') else JNull),
               isbn = i\<rparr>,
         emit (Lookup i) st)) \<and>
   (ol i = Body (JObj entries) \<and> map_of entries (''ISBN:'' @ i) = Some (JObj kvs) \<and>
    map_of kvs ''title'' = Some t \<and> map_of kvs ''authors'' = None \<and>
    map_of kvs ''number_of_pages'' = None \<longrightarrow>
      fetchBookInfo ol i st =
        (Some \<lparr>title = Some t, authors = [], numberOfPages = JNull, isbn = i\<rparr>,
         emit (Lookup i) st)) \<and>
   (ol i = NetworkFailure \<or> ol i = BadBody \<or>
    (ol i = Body data \<and>
     (get_prop (Some data) (''ISBN:'' @ i) = Inr None \<or>
      get_prop (Some data) (''ISBN:'' @ i) = Inl TypeError)) \<longrightarrow>
      fst (fetchBookInfo ol i st) = None \<and>
      failedIsbns (snd (fetchBookInfo ol i st)) = failedIsbns st @ [i] \<and>
      lookups (trace (snd (fetchBookInfo ol i st))) = lookups (trace st) @ [i])"
  by (auto simp add: fetchBookInfo_def fetchBookInfo_try_def Let_def authors_of_def
      lookups_append)

theorem fetchBookInfo_outcomes_witness:
  "title_only ''0141439580'' =
     Body (JObj [(''ISBN:0141439580'', JObj [(''title'', JStr ''Emma'')])]) \<and>
   fetchBookInfo title_only ''0141439580'' import_start =
     (Some \<lparr>title = Some (JStr ''Emma''), authors = [], numberOfPages = JNull,
            isbn = ''0141439580''\<rparr>,
      emit (Lookup ''0141439580'') import_start) \<and>
   offline ''0141439580'' = NetworkFailure \<and>
   fst (fetchBookInfo offline ''0141439580'' failed_once) = None \<and>
   failedIsbns (snd (fetchBookInfo offline ''0141439580'' failed_once)) =
     [''0141439580'', ''0141439580'']"
proof -
  have h1: "title_only ''0141439580'' =
     Body (JObj [(''ISBN:0141439580'', JObj [(''title'', JStr ''Emma'')])])"
    by (simp add: title_only_def)
  have h2: "map_of [(''ISBN:0141439580'', JObj [(''title'', JStr ''Emma'')])] (''ISBN:'' @ ''0141439580'') =
      Some (JObj [(''title'', JStr ''Emma'')])"
    "map_of [(''title'', JStr ''Emma'')] ''title'' = Some (JStr ''Emma'')"
    "map_of [(''title'', JStr ''Emma'')] ''authors'' = None"
    "map_of [(''title'', JStr ''Emma'')] ''number_of_pages'' = None"
    "authors_of (map_of [(''title'', JStr ''Emma'')] ''authors'') = Inr []"
    by (simp_all add: authors_of_def)
  have h3: "offline ''0141439580'' = NetworkFailure"
    by (simp add: offline_def)
  have a: "fetchBookInfo title_only ''0141439580'' import_start =
     (Some \<lparr>title = Some (JStr ''Emma''), authors = [], numberOfPages = JNull,
            isbn = ''0141439580''\<rparr>,
      emit (Lookup ''0141439580'') import_start)"
    using fetchBookInfo_outcomes [where ol = title_only and i = "''0141439580''"
        and entries = "[(''ISBN:0141439580'', JObj [(''title'', JStr ''Emma'')])]"
        and kvs = "[(''title'', JStr ''Emma'')]" and t = "JStr ''Emma''" and names = "[]"
        and st = import_start] h1 h2
    by blast
  have b: "fst (fetchBookInfo offline ''0141439580'' failed_once) = None \<and>
      failedIsbns (snd (fetchBookInfo offline ''0141439580'' failed_once)) =
        failedIsbns failed_once @ [''0141439580'']"
    using fetchBookInfo_outcomes [where ol = offline and i = "''0141439580''" and st = failed_once] h3
    by blast
  show ?thesis
    using h1 h3 a b by (simp add: failed_once_def)
qed

section \<open>A second run of the page-count script\<close>

lemma update_pages_accepts: "(update_pages d pid v \<noteq> None) = accepts_pages d pid v"
  by (simp add: update_pages_def accepts_pages_def split: json.splits)

lemma page_le_refl: "page_le p p"
  by (simp add: page_le_def)

lemma page_le_trans: "page_le p q \<Longrightarrow> page_le q r \<Longrightarrow> page_le p r"
  by (simp add: page_le_def)

lemma grows_refl: "grows d d"
proof -
  have "list_all2 page_le xs xs" for xs
    by (simp add: list_all2_refl page_le_refl)
  then show ?thesis
    by (simp add: grows_def option.rel_refl)
qed

lemma grows_trans:
  assumes "grows d d'" "grows d' d''"
  shows "grows d d''"
proof -
  have "rel_option
          (\<lambda>r r'. has_more r' = has_more r \<and> next_cursor r' = next_cursor r \<and>
                  list_all2 page_le (results r) (results r'))
          (query d c) (query d'' c)" for c
  proof -
    have a: "rel_option
          (\<lambda>r r'. has_more r' = has_more r \<and> next_cursor r' = next_cursor r \<and>
                  list_all2 page_le (results r) (results r'))
          (query d c) (query d' c)"
      and b: "rel_option
          (\<lambda>r r'. has_more r' = has_more r \<and> next_cursor r' = next_cursor r \<and>
                  list_all2 page_le (results r) (results r'))
          (query d' c) (query d'' c)"
      using assms by (simp_all add: grows_def)
    show ?thesis
    proof (cases "query d c")
      case None
      then show ?thesis using a b by (cases "query d' c"; cases "query d'' c") simp_all
    next
      case (Some r)
      then obtain r' where r': "query d' c = Some r'"
        using a by (cases "query d' c") simp_all
      then obtain r'' where r'': "query d'' c = Some r''"
        using b by (cases "query d'' c") simp_all
      have "list_all2 page_le (results r) (results r'')"
        using a b Some r' r'' list_all2_trans [of page_le page_le page_le "results r" "results r'" "results r''"]
          page_le_trans by auto
      then show ?thesis
        using a b Some r' r'' by simp
    qed
  qed
  then show ?thesis
    using assms by (simp add: grows_def)
qed

lemma grows_set_pages:
  assumes "n \<noteq> 0"
  shows "grows d (set_pages pid n d)"
proof -
  let ?f = "\<lambda>p. if page_id p = pid then p\<lparr>total_pages := Some n\<rparr> else p"
  have le: "page_le p (?f p)" for p
    using assms by (simp add: page_le_def no_number_def)
  have "list_all2 page_le xs (map ?f xs)" for xs
    using le by (simp add: list_all2_conv_all_nth)
  then show ?thesis
    by (simp add: grows_def set_pages_def query_map_pages rejects_map_pages option.rel_map
        option.rel_refl)
qed

lemma grows_shape: "grows d d' \<Longrightarrow> shape d' = shape d"
proof (rule ext)
  fix c
  assume "grows d d'"
  then have "rel_option
          (\<lambda>r r'. has_more r' = has_more r \<and> next_cursor r' = next_cursor r \<and>
                  list_all2 page_le (results r) (results r'))
          (query d c) (query d' c)"
    by (simp add: grows_def)
  then show "shape d' c = shape d c"
    by (cases "query d c"; cases "query d' c") (simp_all add: shape_def)
qed

lemma grows_query:
  assumes "grows d d'" "query d' c = Some r'"
  shows "\<exists>r. query d c = Some r \<and> has_more r' = has_more r \<and> next_cursor r' = next_cursor r \<and>
             list_all2 page_le (results r) (results r')"
proof -
  have "rel_option
          (\<lambda>r r'. has_more r' = has_more r \<and> next_cursor r' = next_cursor r \<and>
                  list_all2 page_le (results r) (results r'))
          (query d c) (query d' c)"
    using assms(1) by (simp add: grows_def)
  then show ?thesis
    using assms(2) by (cases "query d c") simp_all
qed

lemma grows_query_None: "grows d d' \<Longrightarrow> query d c = None \<Longrightarrow> query d' c = None"
  using grows_shape [of d d'] shape_query_None [of d d' c] by simp

lemma grows_entry:
  assumes "grows d d'" "query d' c = Some r'" "p' \<in> set (results r')"
  shows "\<exists>r p. query d c = Some r \<and> p \<in> set (results r) \<and> page_le p p'"
proof -
  obtain r where r: "query d c = Some r" "list_all2 page_le (results r) (results r')"
    using grows_query [OF assms(1,2)] by blast
  obtain i where i: "i < length (results r')" "results r' ! i = p'"
    using assms(3) by (auto simp add: in_set_conv_nth)
  have "page_le (results r ! i) p'" and "i < length (results r)"
    using r(2) i by (auto simp add: list_all2_conv_all_nth)
  then show ?thesis
    using r(1) by (metis nth_mem)
qed

lemma filled_grows:
  assumes "filled d pid" "grows d d'"
  shows "filled d' pid"
  unfolding filled_def
proof (intro ballI impI)
  fix p'
  assume p': "p' \<in> db_entries d'" "page_id p' = pid"
  then obtain c r' where c: "query d' c = Some r'" "p' \<in> set (results r')"
    by (auto simp add: db_entries_def)
  obtain r p where p: "query d c = Some r" "p \<in> set (results r)" "page_le p p'"
    using grows_entry [OF assms(2) c] by blast
  have "p \<in> db_entries d"
    using p(1,2) by (auto simp add: db_entries_def)
  moreover have "page_id p = pid"
    using p(3) p'(2) by (simp add: page_le_def)
  ultimately have "\<not> no_number (total_pages p)"
    using assms(1) by (simp add: filled_def)
  then show "\<not> no_number (total_pages p')"
    using p(3) by (simp add: page_le_def)
qed

lemma filled_set_pages: "n \<noteq> 0 \<Longrightarrow> filled (set_pages pid n d) pid"
  using set_pages_sets [of pid n d] by (auto simp add: filled_def db_entries_def no_number_def)

lemma accepts_pages_grows: "grows d d' \<Longrightarrow> accepts_pages d' pid v = accepts_pages d pid v"
  by (simp add: grows_def accepts_pages_def split: json.splits)

lemma would_accept_grows:
  assumes "grows d d'" "page_le p p'"
  shows "would_accept d' ol p' = would_accept d ol p"
proof -
  have "page_id p' = page_id p" "isbn_text p' = isbn_text p"
    using assms(2) by (simp_all add: page_le_def)
  then show ?thesis
    by (simp add: would_accept_def accepts_pages_grows [OF assms(1)] cong: sum.case_cong)
qed

lemma updates_append: "updates (xs @ ys) = updates xs @ updates ys"
  by (induction xs rule: updates.induct) simp_all

lemma updates_set: "((pid, v) \<in> set (updates es)) = (UpdatePages pid v \<in> set es)"
  by (induction es rule: updates.induct) auto

lemma fetch_succeeds_iff: "fetch_succeeds ol p v = (fetched_pages ol p = Some v)"
  by (auto simp add: fetch_succeeds_def fetched_pages_def split: sum.splits)

lemma fetched_pages_truthy: "fetched_pages ol p = Some v \<Longrightarrow> truthy (Some v)"
  by (auto simp add: fetched_pages_def split: sum.splits if_splits)

lemma would_accept_iff:
  "would_accept d ol p =
     (\<not> no_value (isbn_text p) \<and>
      (case fetched_pages ol p of None \<Rightarrow> False | Some v \<Rightarrow> accepts_pages d (page_id p) v))"
  by (auto simp add: would_accept_def fetched_pages_def split: sum.splits option.splits)

lemma before_lookup_updates [simp]:
  "updates (trace (before_lookup force p st)) = updates (trace st)"
  by (simp add: before_lookup_def updates_append)

lemma pagesRecord_missing:
  "no_value (isbn_text p) \<Longrightarrow>
   pagesRecord ol force p st =
     (emit (Log ''Skipping - no ISBN found'' (unknown_title (title_text p))) st)
       \<lparr>totalMissingISBN := Suc (totalMissingISBN st)\<rparr>"
  by (simp add: pagesRecord_def Let_def)

lemma pagesRecord_skip:
  "\<not> no_value (isbn_text p) \<Longrightarrow> \<not> no_number (total_pages p) \<Longrightarrow> \<not> force \<Longrightarrow>
   pagesRecord ol force p st =
     (emit (Log ''Skipping - already has pages'' (unknown_title (title_text p))) st)
       \<lparr>totalSkipped := Suc (totalSkipped st)\<rparr>"
  by (simp add: pagesRecord_def Let_def)

lemma pagesRecord_no_count:
  assumes "\<not> no_value (isbn_text p)" "no_number (total_pages p) \<or> force"
    and "fetched_pages ol p = None"
  shows "db (pagesRecord ol force p st) = db st"
    and "totalUpdated (pagesRecord ol force p st) = totalUpdated st"
    and "totalForceUpdated (pagesRecord ol force p st) = totalForceUpdated st"
    and "updates (trace (pagesRecord ol force p st)) = updates (trace st)"
  using assms(3) unfolding pagesRecord_unfold [OF assms(1,2)] Let_def fetched_pages_def
  by (simp_all add: updates_append split: sum.splits if_splits)

lemma pagesRecord_refused:
  assumes "\<not> no_value (isbn_text p)" "no_number (total_pages p) \<or> force"
    and "fetched_pages ol p = Some v" "\<not> accepts_pages (db st) (page_id p) v"
  shows "db (pagesRecord ol force p st) = db st"
    and "totalUpdated (pagesRecord ol force p st) = totalUpdated st"
    and "totalForceUpdated (pagesRecord ol force p st) = totalForceUpdated st"
    and "updates (trace (pagesRecord ol force p st)) = updates (trace st) @ [(page_id p, v)]"
proof -
  have f: "fetch_succeeds ol p v"
    using assms(3) by (simp add: fetch_succeeds_iff)
  have u: "update_pages (db st) (page_id p) v = None"
    using assms(4) update_pages_accepts [of "db st" "page_id p" v] by simp
  show "db (pagesRecord ol force p st) = db st"
    and "totalUpdated (pagesRecord ol force p st) = totalUpdated st"
    and "totalForceUpdated (pagesRecord ol force p st) = totalForceUpdated st"
    and "updates (trace (pagesRecord ol force p st)) = updates (trace st) @ [(page_id p, v)]"
    unfolding pagesRecord_fetched [OF assms(1,2) f] Let_def u
    by (simp_all add: updates_append)
qed

lemma pagesRecord_written:
  assumes "\<not> no_value (isbn_text p)" "no_number (total_pages p)"
    and "fetched_pages ol p = Some v" "accepts_pages (db st) (page_id p) v"
  shows "\<exists>n. n \<noteq> 0 \<and> v = JNum n \<and>
             db (pagesRecord ol False p st) = set_pages (page_id p) n (db st)"
    and "updates (trace (pagesRecord ol False p st)) = updates (trace st) @ [(page_id p, v)]"
    and "totalForceUpdated (pagesRecord ol False p st) = totalForceUpdated st"
proof -
  have f: "fetch_succeeds ol p v"
    using assms(3) by (simp add: fetch_succeeds_iff)
  obtain n where n: "v = JNum n" "\<not> rejects (db st) (page_id p)"
    using assms(4) by (cases v) (simp_all add: accepts_pages_def)
  have n0: "n \<noteq> 0"
    using fetched_pages_truthy [OF assms(3)] n(1) by simp
  have u: "update_pages (db st) (page_id p) v = Some (set_pages (page_id p) n (db st))"
    using n by (simp add: update_pages_def)
  have o: "no_number (total_pages p) \<or> False"
    using assms(2) by simp
  show "\<exists>n. n \<noteq> 0 \<and> v = JNum n \<and>
             db (pagesRecord ol False p st) = set_pages (page_id p) n (db st)"
    unfolding pagesRecord_fetched [OF assms(1) o f] Let_def u
    using n0 n(1) by simp
  show "updates (trace (pagesRecord ol False p st)) = updates (trace st) @ [(page_id p, v)]"
    and "totalForceUpdated (pagesRecord ol False p st) = totalForceUpdated st"
    unfolding pagesRecord_fetched [OF assms(1) o f] Let_def u
    by (simp_all add: updates_append)
qed

lemma refreshes_cases:
  "refreshes d ol p =
     (\<not> no_value (isbn_text p) \<and> no_number (total_pages p) \<and>
      (\<exists>v. fetched_pages ol p = Some v \<and> accepts_pages d (page_id p) v))"
  by (auto simp add: refreshes_def would_accept_iff split: option.splits)

lemma refreshes_grows: "grows d d' \<Longrightarrow> refreshes d' ol p = refreshes d ol p"
  by (simp add: refreshes_def would_accept_grows [OF _ page_le_refl])

lemma pagesRecord_refreshes:
  assumes "refreshes (db st) ol p"
  shows "\<exists>n v. n \<noteq> 0 \<and> v = JNum n \<and> fetched_pages ol p = Some v \<and>
           db (pagesRecord ol False p st) = set_pages (page_id p) n (db st) \<and>
           updates (trace (pagesRecord ol False p st)) = updates (trace st) @ [(page_id p, v)]"
    and "totalForceUpdated (pagesRecord ol False p st) = totalForceUpdated st"
proof -
  obtain v where v: "\<not> no_value (isbn_text p)" "no_number (total_pages p)"
    "fetched_pages ol p = Some v" "accepts_pages (db st) (page_id p) v"
    using assms by (auto simp add: refreshes_cases)
  show "\<exists>n v. n \<noteq> 0 \<and> v = JNum n \<and> fetched_pages ol p = Some v \<and>
           db (pagesRecord ol False p st) = set_pages (page_id p) n (db st) \<and>
           updates (trace (pagesRecord ol False p st)) = updates (trace st) @ [(page_id p, v)]"
    using pagesRecord_written(1,2) [OF v] v(3) by blast
  show "totalForceUpdated (pagesRecord ol False p st) = totalForceUpdated st"
    using pagesRecord_written(3) [OF v] by simp
qed

lemma pagesRecord_quiet:
  assumes "\<not> refreshes (db st) ol p"
  shows "db (pagesRecord ol False p st) = db st"
    and "totalUpdated (pagesRecord ol False p st) = totalUpdated st"
    and "totalForceUpdated (pagesRecord ol False p st) = totalForceUpdated st"
    and "\<exists>us. updates (trace (pagesRecord ol False p st)) = updates (trace st) @ us \<and>
              (us \<noteq> [] \<longrightarrow> no_number (total_pages p)) \<and>
              (\<forall>u \<in> set us. fst u = page_id p \<and> \<not> accepts_pages (db st) (fst u) (snd u))"
proof -
  consider (missing) "no_value (isbn_text p)"
    | (skip) "\<not> no_value (isbn_text p)" "\<not> no_number (total_pages p)"
    | (none) "\<not> no_value (isbn_text p)" "no_number (total_pages p)" "fetched_pages ol p = None"
    | (refused) v where "\<not> no_value (isbn_text p)" "no_number (total_pages p)"
        "fetched_pages ol p = Some v" "\<not> accepts_pages (db st) (page_id p) v"
    using assms by (cases "fetched_pages ol p") (auto simp add: refreshes_cases)
  then have "db (pagesRecord ol False p st) = db st \<and>
    totalUpdated (pagesRecord ol False p st) = totalUpdated st \<and>
    totalForceUpdated (pagesRecord ol False p st) = totalForceUpdated st \<and>
    (\<exists>us. updates (trace (pagesRecord ol False p st)) = updates (trace st) @ us \<and>
              (us \<noteq> [] \<longrightarrow> no_number (total_pages p)) \<and>
              (\<forall>u \<in> set us. fst u = page_id p \<and> \<not> accepts_pages (db st) (fst u) (snd u)))"
  proof cases
    case missing
    then show ?thesis by (simp add: pagesRecord_missing updates_append)
  next
    case skip
    then show ?thesis by (simp add: pagesRecord_skip updates_append)
  next
    case none
    have o: "no_number (total_pages p) \<or> False"
      using none(2) by simp
    show ?thesis
      using pagesRecord_no_count [OF none(1) o none(3), of st] by simp
  next
    case refused
    have o: "no_number (total_pages p) \<or> False"
      using refused(2) by simp
    show ?thesis
      using pagesRecord_refused [OF refused(1) o refused(3,4)] refused(2,4) by simp
  qed
  then show "db (pagesRecord ol False p st) = db st"
    and "totalUpdated (pagesRecord ol False p st) = totalUpdated st"
    and "totalForceUpdated (pagesRecord ol False p st) = totalForceUpdated st"
    and "\<exists>us. updates (trace (pagesRecord ol False p st)) = updates (trace st) @ us \<and>
              (us \<noteq> [] \<longrightarrow> no_number (total_pages p)) \<and>
              (\<forall>u \<in> set us. fst u = page_id p \<and> \<not> accepts_pages (db st) (fst u) (snd u))"
    by blast+
qed

lemma pagesRecord_grows: "grows (db st) (db (pagesRecord ol False p st))"
proof (cases "refreshes (db st) ol p")
  case True
  then show ?thesis
    using pagesRecord_refreshes(1) [OF True] grows_set_pages by metis
next
  case False
  then show ?thesis
    using pagesRecord_quiet(1) [OF False] grows_refl by simp
qed

lemma pagesBatch_grows: "grows (db st) (db (pagesBatch ol False ps st))"
proof (induction ps arbitrary: st)
  case Nil
  show ?case by (simp add: grows_refl)
next
  case (Cons p ps)
  show ?case
    using grows_trans [OF pagesRecord_grows [of st ol p] Cons [of "pagesRecord ol False p st"]]
    by simp
qed

lemma pagesBatch_fills:
  "p \<in> set ps \<Longrightarrow> refreshes (db st) ol p \<Longrightarrow>
   filled (db (pagesBatch ol False ps st)) (page_id p)"
proof (induction ps arbitrary: st)
  case Nil
  then show ?case by simp
next
  case (Cons q ps)
  let ?st1 = "pagesRecord ol False q st"
  show ?case
  proof (cases "refreshes (db st) ol q \<and> page_id q = page_id p")
    case True
    then obtain n where n: "n \<noteq> 0" "db ?st1 = set_pages (page_id q) n (db st)"
      using pagesRecord_refreshes(1) [of st ol q] by blast
    have "filled (db ?st1) (page_id p)"
      using n filled_set_pages [of n "page_id q" "db st"] True by simp
    then show ?thesis
      using filled_grows [OF _ pagesBatch_grows [of ?st1 ol ps]] by simp
  next
    case False
    then have "p \<noteq> q"
      using Cons.prems(2) by auto
    then have m: "p \<in> set ps"
      using Cons.prems(1) by simp
    have "refreshes (db ?st1) ol p"
      using Cons.prems(2) refreshes_grows [OF pagesRecord_grows [of st ol q]] by simp
    from Cons.IH [OF m this] show ?thesis by simp
  qed
qed

lemma settled_after_batch:
  assumes "query (db st) c = Some r"
  shows "settled_at (db (pagesBatch ol False (results r) st)) ol c"
proof -
  let ?d' = "db (pagesBatch ol False (results r) st)"
  have g: "grows (db st) ?d'"
    by (rule pagesBatch_grows)
  have "\<not> refreshes ?d' ol p'" if q: "query ?d' c = Some r'" and m: "p' \<in> set (results r')" for r' p'
  proof
    assume a: "refreshes ?d' ol p'"
    obtain p where p: "p \<in> set (results r)" "page_le p p'"
      using grows_entry [OF g q m] assms by auto
    have "would_accept (db st) ol p"
      using a would_accept_grows [OF g p(2), of ol] by (simp add: refreshes_def)
    moreover have "no_number (total_pages p)"
      using a p(2) by (auto simp add: refreshes_def page_le_def)
    ultimately have "refreshes (db st) ol p"
      by (simp add: refreshes_def)
    then have "filled ?d' (page_id p)"
      using pagesBatch_fills [OF p(1)] by simp
    moreover have "p' \<in> db_entries ?d'" "page_id p' = page_id p"
      using q m p(2) by (auto simp add: db_entries_def page_le_def)
    ultimately have "\<not> no_number (total_pages p')"
      by (simp add: filled_def)
    then show False
      using a by (simp add: refreshes_def)
  qed
  then show ?thesis
    by (simp add: settled_at_def split: option.splits)
qed

lemma settled_grows:
  assumes "settled_at d ol c" "grows d d'"
  shows "settled_at d' ol c"
proof -
  have "\<not> refreshes d' ol p'" if q: "query d' c = Some r'" and m: "p' \<in> set (results r')" for r' p'
  proof
    assume a: "refreshes d' ol p'"
    obtain r p where p: "query d c = Some r" "p \<in> set (results r)" "page_le p p'"
      using grows_entry [OF assms(2) q m] by blast
    have "would_accept d ol p"
      using a would_accept_grows [OF assms(2) p(3), of ol] by (simp add: refreshes_def)
    moreover have "no_number (total_pages p)"
      using a p(3) by (auto simp add: refreshes_def page_le_def)
    ultimately have "refreshes d ol p"
      by (simp add: refreshes_def)
    then show False
      using assms(1) p(1,2) by (simp add: settled_at_def)
  qed
  then show ?thesis
    by (simp add: settled_at_def split: option.splits)
qed

lemma updates_emit:
  "updates (trace (emit (Query c) st)) = updates (trace st)"
  "updates (trace (emit (Log a b) st)) = updates (trace st)"
  "updates (trace (emit (LogError a b) st)) = updates (trace st)"
  by (simp_all add: updates_append)

lemma written_filled_record:
  assumes "written_filled st"
  shows "written_filled (pagesRecord ol False p st)"
proof (cases "refreshes (db st) ol p")
  case True
  let ?st' = "pagesRecord ol False p st"
  obtain n v where n: "n \<noteq> 0" "db ?st' = set_pages (page_id p) n (db st)"
    "updates (trace ?st') = updates (trace st) @ [(page_id p, v)]"
    using pagesRecord_refreshes(1) [OF True] by blast
  have g: "grows (db st) (db ?st')"
    by (rule pagesRecord_grows)
  have "filled (db ?st') (fst u)"
    if "u \<in> set (updates (trace ?st'))" "accepts_pages (db ?st') (fst u) (snd u)" for u
  proof (cases "u \<in> set (updates (trace st))")
    case True
    then have "filled (db st) (fst u)"
      using assms that(2) accepts_pages_grows [OF g] by (simp add: written_filled_def)
    then show ?thesis
      using filled_grows [OF _ g] by simp
  next
    case False
    then have "fst u = page_id p"
      using that(1) n(3) by auto
    then show ?thesis
      using n(1,2) filled_set_pages by simp
  qed
  then show ?thesis
    by (simp add: written_filled_def)
next
  case False
  let ?st' = "pagesRecord ol False p st"
  obtain us where us: "updates (trace ?st') = updates (trace st) @ us"
    "\<forall>u \<in> set us. fst u = page_id p \<and> \<not> accepts_pages (db st) (fst u) (snd u)"
    using pagesRecord_quiet(4) [OF False] by blast
  have d: "db ?st' = db st"
    using pagesRecord_quiet(1) [OF False] .
  show ?thesis
    using assms us by (auto simp add: written_filled_def d)
qed

lemma written_filled_batch:
  "written_filled st \<Longrightarrow> written_filled (pagesBatch ol False ps st)"
  by (induction ps arbitrary: st) (simp_all add: written_filled_record)

lemma written_filled_emit:
  "written_filled st \<Longrightarrow> written_filled (emit (Query c) st)"
  "written_filled st \<Longrightarrow> written_filled (emit (Log a b) st)"
  "written_filled st \<Longrightarrow> written_filled (emit (LogError a b) st)"
  by (simp_all add: written_filled_def updates_append)

lemma pagesLoop_grows:
  "pagesLoop k ol False c st = Some s \<Longrightarrow>
   grows (db st) (db s) \<and> (written_filled st \<longrightarrow> written_filled s)"
proof (induction k arbitrary: c st)
  case 0
  then show ?case by simp
next
  case (Suc k)
  show ?case
  proof (cases "query (db st) c")
    case None
    then have "s = emit (LogError ''Error updating book total pages'' []) (emit (Query c) st)"
      using Suc.prems by (simp add: Let_def)
    then show ?thesis
      by (simp add: grows_refl written_filled_emit)
  next
    case (Some r)
    define st3 where "st3 = emit (Log (if has_more r then ''Batch complete. Moving to next page''
                                   else ''Batch complete. No more pages'') [])
       (pagesBatch ol False (results r)
          (emit (Log ''Processing batch of books'' []) (emit (Query c) st)))"
    have g3: "grows (db st) (db st3)"
      using pagesBatch_grows [of "emit (Log ''Processing batch of books'' []) (emit (Query c) st)" ol "results r"]
      by (simp add: st3_def)
    have w3: "written_filled st \<Longrightarrow> written_filled st3"
      unfolding st3_def
      by (intro written_filled_emit written_filled_batch)
    show ?thesis
    proof (cases "has_more r")
      case True
      then have "pagesLoop k ol False (next_cursor r) st3 = Some s"
        using Suc.prems Some by (simp add: st3_def Let_def)
      from Suc.IH [OF this] show ?thesis
        using g3 w3 grows_trans by blast
    next
      case False
      then have "s = emit (Log ''Summary'' []) st3"
        using Suc.prems Some by (simp add: st3_def Let_def)
      then show ?thesis
        using g3 w3 by (simp add: written_filled_emit)
    qed
  qed
qed

lemma quiet_record:
  assumes "p \<in> db_entries (db st)" "\<not> refreshes (db st) ol p"
  shows "db (pagesRecord ol False p st) = db st"
    and "totalUpdated (pagesRecord ol False p st) = totalUpdated st"
    and "totalForceUpdated (pagesRecord ol False p st) = totalForceUpdated st"
    and "updates_unfilled (db st) st \<Longrightarrow> updates_unfilled (db st) (pagesRecord ol False p st)"
proof -
  show "db (pagesRecord ol False p st) = db st"
    and "totalUpdated (pagesRecord ol False p st) = totalUpdated st"
    and "totalForceUpdated (pagesRecord ol False p st) = totalForceUpdated st"
    using pagesRecord_quiet(1,2,3) [OF assms(2)] by simp_all
  obtain us where us: "updates (trace (pagesRecord ol False p st)) = updates (trace st) @ us"
    "us \<noteq> [] \<longrightarrow> no_number (total_pages p)" "\<forall>u \<in> set us. fst u = page_id p"
    using pagesRecord_quiet(4) [OF assms(2)] by blast
  have "\<not> filled (db st) (fst u)" if "u \<in> set us" for u
  proof -
    have "no_number (total_pages p)" "fst u = page_id p"
      using us(2,3) that by auto
    then show ?thesis
      using assms(1) by (auto simp add: filled_def)
  qed
  then show "updates_unfilled (db st) (pagesRecord ol False p st)" if "updates_unfilled (db st) st"
    using that us(1) by (auto simp add: updates_unfilled_def)
qed

lemma quiet_batch:
  assumes "\<forall>p \<in> set ps. p \<in> db_entries (db st) \<and> \<not> refreshes (db st) ol p"
  shows "db (pagesBatch ol False ps st) = db st \<and>
         totalUpdated (pagesBatch ol False ps st) = totalUpdated st \<and>
         totalForceUpdated (pagesBatch ol False ps st) = totalForceUpdated st \<and>
         (updates_unfilled (db st) st \<longrightarrow> updates_unfilled (db st) (pagesBatch ol False ps st))"
  using assms
proof (induction ps arbitrary: st)
  case Nil
  show ?case by simp
next
  case (Cons p ps)
  have p: "p \<in> db_entries (db st)" "\<not> refreshes (db st) ol p"
    using Cons.prems by simp_all
  note q = quiet_record [OF p]
  have "\<forall>p' \<in> set ps. p' \<in> db_entries (db (pagesRecord ol False p st)) \<and>
          \<not> refreshes (db (pagesRecord ol False p st)) ol p'"
    using Cons.prems q(1) by simp
  from Cons.IH [OF this] show ?case
    using q by simp
qed

lemma grows_query_Some:
  assumes "grows d d'" "query d c = Some r"
  shows "\<exists>r'. query d' c = Some r' \<and> has_more r' = has_more r \<and> next_cursor r' = next_cursor r"
  using shape_query_Some [of d d' c r] grows_shape [OF assms(1)] assms(2) by simp

lemma settled_at_None: "query d c = None \<Longrightarrow> settled_at d ol c"
  by (simp add: settled_at_def)

lemma second_run:
  assumes "pagesLoop k1 ol False c st = Some s1" "grows (db s1) dF"
    and "db st2 = dF" "pagesLoop k2 ol False c st2 = Some s2"
  shows "db s2 = dF \<and> totalUpdated s2 = totalUpdated st2 \<and>
         totalForceUpdated s2 = totalForceUpdated st2 \<and>
         (updates_unfilled dF st2 \<longrightarrow> updates_unfilled dF s2) \<and>
         (queries_settled dF ol st2 \<longrightarrow> queries_settled dF ol s2)"
  using assms
proof (induction k1 arbitrary: c st st2 k2)
  case 0
  then show ?case by simp
next
  case (Suc k)
  obtain j where j: "k2 = Suc j"
    using Suc.prems(4) by (cases k2) simp_all
  have gF: "grows (db st) dF"
    using pagesLoop_grows [OF Suc.prems(1)] Suc.prems(2) grows_trans by blast
  show ?case
  proof (cases "query (db st) c")
    case None
    then have n: "query dF c = None"
      using grows_query_None [OF gF] by simp
    then have "s2 = emit (LogError ''Error updating book total pages'' []) (emit (Query c) st2)"
      using Suc.prems(3,4) j by (simp add: Let_def)
    then show ?thesis
      using Suc.prems(3) settled_at_None [OF n]
      by (simp add: updates_unfilled_def queries_settled_def updates_append queries_append)
  next
    case (Some r)
    define stb where "stb = pagesBatch ol False (results r)
          (emit (Log ''Processing batch of books'' []) (emit (Query c) st))"
    define st3 where "st3 = emit (Log (if has_more r then ''Batch complete. Moving to next page''
                                   else ''Batch complete. No more pages'') []) stb"
    have sb: "settled_at (db stb) ol c"
      unfolding stb_def
      using settled_after_batch [of "emit (Log ''Processing batch of books'' []) (emit (Query c) st)" c r ol]
        Some by simp
    have run1: "if has_more r then pagesLoop k ol False (next_cursor r) st3 = Some s1
                else s1 = emit (Log ''Summary'' []) st3"
      using Suc.prems(1) Some by (cases "has_more r") (simp_all add: st3_def stb_def Let_def)
    have "grows (db st3) (db s1)"
    proof (cases "has_more r")
      case True
      then show ?thesis using run1 pagesLoop_grows by simp
    next
      case False
      then show ?thesis using run1 by (simp add: grows_refl)
    qed
    then have "grows (db stb) (db s1)"
      by (simp add: st3_def)
    then have "grows (db stb) dF"
      using Suc.prems(2) grows_trans by blast
    then have sF: "settled_at dF ol c"
      using settled_grows [OF sb] by simp
    obtain rF where rF: "query dF c = Some rF" "has_more rF = has_more r"
      "next_cursor rF = next_cursor r"
      using grows_query_Some [OF gF Some] by blast
    define st2a where "st2a = emit (Log ''Processing batch of books'' []) (emit (Query c) st2)"
    define st2b where "st2b = pagesBatch ol False (results rF) st2a"
    define st23 where "st23 = emit (Log (if has_more rF then ''Batch complete. Moving to next page''
                                   else ''Batch complete. No more pages'') []) st2b"
    have da: "db st2a = dF"
      using Suc.prems(3) by (simp add: st2a_def)
    have "\<forall>p \<in> set (results rF). p \<in> db_entries (db st2a) \<and> \<not> refreshes (db st2a) ol p"
      using sF rF(1) da by (auto simp add: settled_at_def db_entries_def)
    from quiet_batch [OF this] have qb: "db st2b = dF" "totalUpdated st2b = totalUpdated st2a"
      "totalForceUpdated st2b = totalForceUpdated st2a"
      "updates_unfilled dF st2a \<longrightarrow> updates_unfilled dF st2b"
      using da by (simp_all add: st2b_def)
    have u23: "updates_unfilled dF st2 \<longrightarrow> updates_unfilled dF st23"
      using qb(4) by (simp add: st23_def st2a_def updates_unfilled_def updates_append)
    have q23: "queries_settled dF ol st2 \<longrightarrow> queries_settled dF ol st23"
      using sF
      by (simp add: st23_def st2b_def st2a_def queries_settled_def queries_append pagesBatch_queries)
    have c23: "db st23 = dF" "totalUpdated st23 = totalUpdated st2"
      "totalForceUpdated st23 = totalForceUpdated st2"
      using qb(1,2,3) by (simp_all add: st23_def st2a_def)
    have run2: "if has_more r then pagesLoop j ol False (next_cursor r) st23 = Some s2
                else s2 = emit (Log ''Summary'' []) st23"
      using Suc.prems(3,4) j rF
      by (cases "has_more r") (simp_all add: st23_def st2b_def st2a_def Let_def)
    show ?thesis
    proof (cases "has_more r")
      case True
      have "db s2 = dF \<and> totalUpdated s2 = totalUpdated st23 \<and>
         totalForceUpdated s2 = totalForceUpdated st23 \<and>
         (updates_unfilled dF st23 \<longrightarrow> updates_unfilled dF s2) \<and>
         (queries_settled dF ol st23 \<longrightarrow> queries_settled dF ol s2)"
        using Suc.IH [of "next_cursor r" st3 st23 j] run1 run2 True Suc.prems(2) c23(1) by simp
      then show ?thesis
        using u23 q23 c23 by simp
    next
      case False
      then have "s2 = emit (Log ''Summary'' []) st23"
        using run2 by simp
      then show ?thesis
        using u23 q23 c23
        by (simp add: updates_unfilled_def queries_settled_def updates_append queries_append)
    qed
  qed
qed

lemma pages_start_clean:
  "updates (trace (pages_start False d)) = []"
  "totalUpdated (pages_start False d) = 0"
  "totalForceUpdated (pages_start False d) = 0"
  by (simp_all add: pages_start_def Let_def)

lemma pagesLoop_ends_shape:
  "shape (db st) = shape (db st') \<Longrightarrow>
   (pagesLoop k ol force c st = None) = (pagesLoop k ol force' c st' = None)"
proof (induction k arbitrary: c st st')
  case 0
  show ?case by simp
next
  case (Suc k)
  show ?case
  proof (cases "query (db st) c")
    case None
    then show ?thesis
      using shape_query_None [OF Suc.prems None] by (simp add: Let_def)
  next
    case (Some r)
    obtain r' where r': "query (db st') c = Some r'" "has_more r' = has_more r"
      "next_cursor r' = next_cursor r"
      using shape_query_Some [OF Suc.prems Some] by blast
    define a where "a = emit (Log (if has_more r then ''Batch complete. Moving to next page''
                                   else ''Batch complete. No more pages'') [])
       (pagesBatch ol force (results r)
          (emit (Log ''Processing batch of books'' []) (emit (Query c) st)))"
    define b where "b = emit (Log (if has_more r then ''Batch complete. Moving to next page''
                                   else ''Batch complete. No more pages'') [])
       (pagesBatch ol force' (results r')
          (emit (Log ''Processing batch of books'' []) (emit (Query c) st')))"
    have "shape (db a) = shape (db b)"
      using Suc.prems by (simp add: a_def b_def pagesBatch_shape)
    from Suc.IH [OF this, of "next_cursor r"] show ?thesis
      using Some r' by (cases "has_more r") (simp_all add: a_def b_def Let_def)
  qed
qed

lemma second_run_ends:
  assumes "updateBookTotalPages fuel ol False d = Some s1"
  shows "\<exists>s2. updateBookTotalPages fuel ol False (db s1) = Some s2"
proof -
  have g: "grows d (db s1)"
    using pagesLoop_grows [of fuel ol None "pages_start False d" s1] assms
    by (simp add: updateBookTotalPages_def pages_start_simps)
  have "shape (db (pages_start False d)) = shape (db (pages_start False (db s1)))"
    using grows_shape [OF g] by (simp add: pages_start_simps)
  from pagesLoop_ends_shape [OF this, of fuel ol False None False]
  have "updateBookTotalPages fuel ol False (db s1) \<noteq> None"
    using assms by (simp add: updateBookTotalPages_def)
  then show ?thesis by blast
qed

text \<open>
  Claim C3. Let a run of the page-count script without the force flag end. Then a second
  run on the database as the first left it, with the same lookup service, ends as well
  (within the same number of iterations), and it updates nothing: its two update
  counters are zero and the database is as the first run left it; every page it is
  served has no identifier, or has a page count, or has a lookup or an update that fails
  (all counted as failed); and it sends no update request for a page that the first run
  updated.
\<close>

theorem second_run_updates_nothing:
  assumes "updateBookTotalPages fuel1 ol False d = Some s1"
  shows "(\<exists>s2. updateBookTotalPages fuel1 ol False (db s1) = Some s2) \<and>
         (\<forall>fuel2 s2. updateBookTotalPages fuel2 ol False (db s1) = Some s2 \<longrightarrow>
            totalUpdated s2 = 0 \<and> totalForceUpdated s2 = 0 \<and> db s2 = db s1 \<and>
            (\<forall>c r p. c \<in> set (queries (trace s2)) \<and> query (db s1) c = Some r \<and>
                     p \<in> set (results r) \<longrightarrow>
               no_value (isbn_text p) \<or> \<not> no_number (total_pages p) \<or>
               \<not> would_accept (db s1) ol p) \<and>
            (\<forall>pid v w. UpdatePages pid v \<in> set (trace s1) \<and> accepts_pages d pid v \<longrightarrow>
               UpdatePages pid w \<notin> set (trace s2)))"
proof -
  let ?a = "pages_start False d" and ?b = "pages_start False (db s1)"
  have r1: "pagesLoop fuel1 ol False None ?a = Some s1"
    using assms by (simp add: updateBookTotalPages_def)
  have g: "grows d (db s1)" and w: "written_filled s1"
    using pagesLoop_grows [OF r1]
    by (simp_all add: pages_start_simps written_filled_def pages_start_clean)
  have main: "totalUpdated s2 = 0 \<and> totalForceUpdated s2 = 0 \<and> db s2 = db s1 \<and>
            (\<forall>c r p. c \<in> set (queries (trace s2)) \<and> query (db s1) c = Some r \<and>
                     p \<in> set (results r) \<longrightarrow>
               no_value (isbn_text p) \<or> \<not> no_number (total_pages p) \<or>
               \<not> would_accept (db s1) ol p) \<and>
            (\<forall>pid v w. UpdatePages pid v \<in> set (trace s1) \<and> accepts_pages d pid v \<longrightarrow>
               UpdatePages pid w \<notin> set (trace s2))"
    if run2: "updateBookTotalPages fuel2 ol False (db s1) = Some s2" for fuel2 s2
  proof -
    have r2: "pagesLoop fuel2 ol False None ?b = Some s2"
      using run2 by (simp add: updateBookTotalPages_def)
    have m: "db s2 = db s1 \<and> totalUpdated s2 = 0 \<and> totalForceUpdated s2 = 0 \<and>
        updates_unfilled (db s1) s2 \<and> queries_settled (db s1) ol s2"
      using second_run [OF r1 grows_refl _ r2]
      by (simp add: pages_start_simps pages_start_clean updates_unfilled_def queries_settled_def)
    have a: "no_value (isbn_text p) \<or> \<not> no_number (total_pages p) \<or> \<not> would_accept (db s1) ol p"
      if "c \<in> set (queries (trace s2))" "query (db s1) c = Some r" "p \<in> set (results r)" for c r p
    proof -
      have "settled_at (db s1) ol c"
        using m that(1) by (simp add: queries_settled_def)
      then have "\<not> refreshes (db s1) ol p"
        using that(2,3) by (simp add: settled_at_def)
      then show ?thesis
        by (auto simp add: refreshes_def would_accept_def)
    qed
    have b: "UpdatePages pid w \<notin> set (trace s2)"
      if "UpdatePages pid v \<in> set (trace s1)" "accepts_pages d pid v" for pid v w
    proof -
      have "(pid, v) \<in> set (updates (trace s1))" "accepts_pages (db s1) pid v"
        using that accepts_pages_grows [OF g] by (simp_all add: updates_set)
      then have "filled (db s1) pid"
        using w by (auto simp add: written_filled_def)
      then have "(pid, w) \<notin> set (updates (trace s2))"
        using m by (auto simp add: updates_unfilled_def)
      then show ?thesis
        by (simp add: updates_set)
    qed
    show ?thesis
      using m a b by blast
  qed
  show ?thesis
    using second_run_ends [OF assms] main by blast
qed

lemma first_run:
  "updateBookTotalPages 1 pages_200 False (one_page [book1] False) = Some after_first"
  by (simp add: updateBookTotalPages_def pages_start_def one_page_simps Let_def pagesRecord_def
      book1_def no_value_def no_number_def emit_def unknown_title_def
      fetchBookDataFromOpenLibrary_def pages_200_def update_pages_def after_first_def)

lemma second_run_example:
  "updateBookTotalPages 1 pages_200 False (db after_first) = Some after_second"
  by (simp add: updateBookTotalPages_def pages_start_def one_page_simps Let_def pagesRecord_def
      book1_def no_value_def no_number_def emit_def unknown_title_def
      after_first_def after_second_def set_pages_def query_map_pages)

theorem second_run_updates_nothing_witness:
  "updateBookTotalPages 1 pages_200 False (one_page [book1] False) = Some after_first \<and>
   updateBookTotalPages 1 pages_200 False (db after_first) = Some after_second \<and>
   totalUpdated after_first = 1 \<and> totalUpdated after_second = 0 \<and>
   totalSkipped after_second = 1 \<and> db after_second = db after_first"
  using second_run_updates_nothing [OF first_run] first_run second_run_example
  by (simp add: after_first_def after_second_def)

section \<open>Where the loops do pause\<close>

text \<open>
  The other paths that talk to a service end with the pause of their script: an icon
  update, sent or refused; a page-count lookup that throws or that yields a count (the
  update then sent or refused); every turn of the two import loops.
\<close>

lemma iconRecord_pauses:
  "decideIcon p = Update v \<Longrightarrow> last (trace (iconRecord p st)) = Sleep 250"
  by (simp add: iconRecord_def Let_def)

lemma pagesRecord_pauses:
  assumes "\<not> no_value (isbn_text p)" "no_number (total_pages p) \<or> force"
  shows "fetched_pages ol p = Some v \<Longrightarrow> last (trace (pagesRecord ol force p st)) = Sleep 500"
    and "fetchBookDataFromOpenLibrary ol (the (isbn_text p)) = Inl e \<Longrightarrow>
         last (trace (pagesRecord ol force p st)) = Sleep 500"
proof -
  show "last (trace (pagesRecord ol force p st)) = Sleep 500" if "fetched_pages ol p = Some v"
    unfolding pagesRecord_fetched [OF assms that [folded fetch_succeeds_iff]] Let_def
    by (simp split: option.splits)
  show "last (trace (pagesRecord ol force p st)) = Sleep 500"
    if "fetchBookDataFromOpenLibrary ol (the (isbn_text p)) = Inl e"
    unfolding pagesRecord_unfold [OF assms] Let_def using that by simp
qed

lemma importISBN_pauses: "last (trace (snd (importISBN ol accepts raw acc))) = Sleep 1000"
  by (simp add: importISBN_def Let_def split: option.splits)

lemma importBook_pauses: "last (trace (snd (importBook ol accepts book acc))) = Sleep 1000"
  unfolding importBook_unfold Let_def by (simp split: option.splits)

end
